theory Spec2Isabelle
  imports Main "HOL-Library.Sublist" "HOL-Library.AList"
begin

section \<open>JavaScript strings\<close>

text \<open>
  A JavaScript string is a sequence of UTF-16 code units; a code unit is modelled as a natural
  number. String literals of the source are written \<open>u ''...''\<close>.
\<close>

type_synonym uchar = nat
type_synonym ustring = "uchar list"

definition u :: "string \<Rightarrow> ustring" where
  "u s = map of_char s"

text \<open>The characters the regular-expression class \<open>\s\<close> matches (ECMAScript WhiteSpace and
  LineTerminator): TAB, LF, VT, FF, CR, SP, NBSP, U+1680, U+2000..U+200A, U+2028, U+2029,
  U+202F, U+205F, U+3000, U+FEFF.\<close>

definition is_space :: "uchar \<Rightarrow> bool" where
  "is_space c \<longleftrightarrow>
     c = 9 \<or> c = 10 \<or> c = 11 \<or> c = 12 \<or> c = 13 \<or> c = 32 \<or> c = 160 \<or> c = 5760 \<or>
     (8192 \<le> c \<and> c \<le> 8202) \<or> c = 8232 \<or> c = 8233 \<or> c = 8239 \<or> c = 8287 \<or>
     c = 12288 \<or> c = 65279"

text \<open>The characters the regular-expression atom \<open>.\<close> does not match: LF, CR, U+2028, U+2029.\<close>

definition is_line_terminator :: "uchar \<Rightarrow> bool" where
  "is_line_terminator c \<longleftrightarrow> c = 10 \<or> c = 13 \<or> c = 8232 \<or> c = 8233"

subsection \<open>\<open>split\<close> and \<open>join\<close> on a one-character separator\<close>

text \<open>\<open>s.split(sep)\<close>: the pieces of \<open>s\<close> between the separators; never the empty array.\<close>

fun split_on :: "uchar \<Rightarrow> ustring \<Rightarrow> ustring list" where
  "split_on sep [] = [[]]"
| "split_on sep (c # cs) =
     (if c = sep then [] # split_on sep cs
      else (case split_on sep cs of [] \<Rightarrow> [[c]] | l # ls \<Rightarrow> (c # l) # ls))"

text \<open>\<open>a.join(sep)\<close>; the empty array gives the empty string.\<close>

fun join_on :: "uchar \<Rightarrow> ustring list \<Rightarrow> ustring" where
  "join_on sep [] = []"
| "join_on sep [l] = l"
| "join_on sep (l # l' # ls) = l @ sep # join_on sep (l' # ls)"

section \<open>The layout patch (src/index.js, lines 356-364)\<close>

subsection \<open>The test \<open>/import\s+.*(Header|Footer)/.test(line)\<close>\<close>

text \<open>\<open>dot_star_symbol s\<close>: some prefix of \<open>s\<close> matches \<open>.*(Header|Footer)\<close>.\<close>

fun dot_star_symbol :: "ustring \<Rightarrow> bool" where
  "dot_star_symbol [] = False"
| "dot_star_symbol (c # cs) =
     (prefix (u ''Header'') (c # cs) \<or> prefix (u ''Footer'') (c # cs) \<or>
      (\<not> is_line_terminator c \<and> dot_star_symbol cs))"

text \<open>\<open>spaces_then_symbol s\<close>: some prefix of \<open>s\<close> matches \<open>\s*.*(Header|Footer)\<close>.\<close>

fun spaces_then_symbol :: "ustring \<Rightarrow> bool" where
  "spaces_then_symbol [] = False"
| "spaces_then_symbol (c # cs) =
     (dot_star_symbol (c # cs) \<or> (is_space c \<and> spaces_then_symbol cs))"

text \<open>\<open>import_at s\<close>: some prefix of \<open>s\<close> matches \<open>import\s+.*(Header|Footer)\<close>.\<close>

definition import_at :: "ustring \<Rightarrow> bool" where
  "import_at s \<longleftrightarrow>
     prefix (u ''import'') s \<and>
     (case drop 6 s of [] \<Rightarrow> False | c # cs \<Rightarrow> is_space c \<and> spaces_then_symbol cs)"

text \<open>The unanchored test: the pattern matches at some position of the line.\<close>

fun import_test :: "ustring \<Rightarrow> bool" where
  "import_test [] = False"
| "import_test (c # cs) = (import_at (c # cs) \<or> import_test cs)"

definition filter_imports :: "ustring \<Rightarrow> ustring" where
  "filter_imports t = join_on 10 (filter (\<lambda>line. \<not> import_test line) (split_on 10 t))"

subsection \<open>The replacements \<open>replace(/<Header\s*\/>/g, '')\<close> and \<open>replace(/<Footer\s*\/>/g, '')\<close>\<close>

text \<open>\<open>match_marker name s\<close>: if \<open><name\s*/>\<close> matches at the start of \<open>s\<close>, the text after the
  match. The greedy \<open>\s*\<close> takes the whole run of white space: a shorter run is followed by a
  white-space character, never by \<open>/\<close>.\<close>

definition match_marker :: "ustring \<Rightarrow> ustring \<Rightarrow> ustring option" where
  "match_marker name s =
     (if prefix (60 # name) s
      then (let r = dropWhile is_space (drop (Suc (length name)) s)
            in if prefix (u ''/>'') r then Some (drop 2 r) else None)
      else None)"

text \<open>A global replacement by the empty string: scan from the left, skip every match, keep
  every other character. A match is never empty, so the scan resumes after it.\<close>

function remove_all :: "ustring \<Rightarrow> ustring \<Rightarrow> ustring" where
  "remove_all name [] = []"
| "remove_all name (c # cs) =
     (case match_marker name (c # cs) of
        Some r \<Rightarrow> remove_all name r
      | None \<Rightarrow> c # remove_all name cs)"
  by pat_completeness auto
termination
proof (relation "measure (\<lambda>(name, s). length s)")
  show "wf (measure (\<lambda>(name, s). length s))"
    by simp
next
  fix name :: ustring and c cs
  show "((name, cs), (name, c # cs)) \<in> measure (\<lambda>(name, s). length s)"
    by simp
next
  fix name :: ustring and c cs r
  assume a: "match_marker name (c # cs) = Some r"
  then have p: "prefix (60 # name) (c # cs)"
    by (simp add: match_marker_def split: if_splits)
  from a have "r = drop 2 (dropWhile is_space (drop (Suc (length name)) (c # cs)))"
    by (simp add: match_marker_def Let_def split: if_splits)
  then have "length r \<le> length (dropWhile is_space (drop (Suc (length name)) (c # cs)))"
    by simp
  also have "\<dots> \<le> length (drop (Suc (length name)) (c # cs))"
    by (rule length_dropWhile_le)
  also have "\<dots> < length (c # cs)"
    using p by (auto simp: prefix_def)
  finally show "((name, r), (name, c # cs)) \<in> measure (\<lambda>(name, s). length s)"
    by simp
qed

definition patch_layout :: "ustring \<Rightarrow> ustring" where
  "patch_layout t =
     remove_all (u ''Footer'') (remove_all (u ''Header'') (filter_imports t))"

subsection \<open>Vocabulary for the properties of the patch\<close>

text \<open>\<open>occurs p s\<close>: the text \<open>p\<close> occurs somewhere in \<open>s\<close>.\<close>

fun occurs :: "ustring \<Rightarrow> ustring \<Rightarrow> bool" where
  "occurs p [] = (p = [])"
| "occurs p (c # cs) = (prefix p (c # cs) \<or> occurs p cs)"

text \<open>A line mentions one of the two symbols.\<close>

definition mentions :: "ustring \<Rightarrow> bool" where
  "mentions l \<longleftrightarrow> occurs (u ''Header'') l \<or> occurs (u ''Footer'') l"

text \<open>The marker \<open><name\s*/>\<close> matches somewhere in the text.\<close>

fun has_marker :: "ustring \<Rightarrow> ustring \<Rightarrow> bool" where
  "has_marker name [] = False"
| "has_marker name (c # cs) = (match_marker name (c # cs) \<noteq> None \<or> has_marker name cs)"

text \<open>A line that holds one marker of \<open>name\<close> and white space around it, nothing else.\<close>

definition marker_line :: "ustring \<Rightarrow> ustring \<Rightarrow> bool" where
  "marker_line name l =
     (case match_marker name (dropWhile is_space l) of
        None \<Rightarrow> False
      | Some rest \<Rightarrow> list_all is_space rest)"

text \<open>A tidy text: every line is an import line of the two symbols, or mentions neither of
  them, or is a marker line.\<close>

definition tidy :: "ustring \<Rightarrow> bool" where
  "tidy t = list_all (\<lambda>l. import_test l \<or> \<not> mentions l \<or>
                           marker_line (u ''Header'') l \<or> marker_line (u ''Footer'') l)
                     (split_on 10 t)"

text \<open>What the two replacements leave of one line.\<close>

definition strip_markers :: "ustring \<Rightarrow> ustring" where
  "strip_markers l = remove_all (u ''Footer'') (remove_all (u ''Header'') l)"

text \<open>The text ends in an unfinished marker: \<open><name\<close> and then white space only, so that
  \<open>/>\<close> on a later line would complete it.\<close>

fun unfinished :: "ustring \<Rightarrow> ustring \<Rightarrow> bool" where
  "unfinished name [] = False"
| "unfinished name (c # cs) =
     ((prefix (60 # name) (c # cs) \<and> list_all is_space (drop (Suc (length name)) (c # cs))) \<or>
      unfinished name cs)"

text \<open>A closed text: no kept line ends in an unfinished marker when its replacement runs.\<close>

definition closed :: "ustring \<Rightarrow> bool" where
  "closed t = list_all (\<lambda>l. \<not> unfinished (u ''Header'') l \<and>
                            \<not> unfinished (u ''Footer'') (remove_all (u ''Header'') l))
                       (split_on 10 (filter_imports t))"

text \<open>A settled line: it does not match the import pattern, holds no marker and does not end
  in an unfinished one.\<close>

definition settled :: "ustring \<Rightarrow> bool" where
  "settled l \<longleftrightarrow>
     \<not> import_test l \<and> \<not> has_marker (u ''Header'') l \<and> \<not> has_marker (u ''Footer'') l \<and>
     \<not> unfinished (u ''Header'') l \<and> \<not> unfinished (u ''Footer'') l"

section \<open>Paths (Node's \<open>path\<close> module, POSIX flavour)\<close>

text \<open>An absolute, normalised path is the list of its components from the root; the string
  Node handles is \<open>path_to_string\<close> of it.\<close>

type_synonym path = "ustring list"

fun path_to_string :: "path \<Rightarrow> ustring" where
  "path_to_string [] = [47]"
| "path_to_string (c # cs) = concat (map (\<lambda>x. 47 # x) (c # cs))"

text \<open>\<open>path.resolve(...args)\<close> walks its arguments from the right, prepending each non-empty
  one, until the accumulated string is absolute.\<close>

fun resolve_join :: "ustring list \<Rightarrow> ustring" where
  "resolve_join [] = []"
| "resolve_join (p # ps) =
     (let r = resolve_join ps
      in if prefix [47] r then r else if p = [] then r else p @ 47 # r)"

text \<open>Normalisation of an absolute path: empty and \<open>.\<close> segments vanish, \<open>..\<close> drops the last
  component kept so far (and nothing at the root).\<close>

fun normalize_segments :: "ustring list \<Rightarrow> path \<Rightarrow> path" where
  "normalize_segments [] acc = acc"
| "normalize_segments (s # ss) acc =
     (if s = [] \<or> s = u ''.'' then normalize_segments ss acc
      else if s = u ''..'' then normalize_segments ss (butlast acc)
      else normalize_segments ss (acc @ [s]))"

text \<open>\<open>path.resolve\<close> in a process whose working directory is \<open>cwd\<close>: when the arguments
  give no absolute path, \<open>process.cwd()\<close> is prepended.\<close>

definition path_resolve :: "path \<Rightarrow> ustring list \<Rightarrow> path" where
  "path_resolve cwd args =
     normalize_segments (split_on 47 (resolve_join (path_to_string cwd # args))) []"

text \<open>\<open>path.basename\<close> of a resolved path: its last component, the empty string at the root.\<close>

definition path_basename :: "path \<Rightarrow> ustring" where
  "path_basename p = (if p = [] then [] else last p)"

text \<open>\<open>path.join(dir, name, ...)\<close> with literal names (no separator, no dot segment).\<close>

definition path_join :: "path \<Rightarrow> ustring list \<Rightarrow> path" where
  "path_join dir names = dir @ names"

section \<open>The filesystem\<close>

datatype entry = File ustring | Dir

type_synonym filesystem = "(path \<times> entry) list"

datatype exn = TypeError | SyntaxError | ENOENT | ENOTDIR | EISDIR | EOTHER

definition lookup :: "filesystem \<Rightarrow> path \<Rightarrow> entry option" where
  "lookup fs p = (if p = [] then Some Dir else map_of fs p)"

text \<open>\<open>fs.access(p)\<close>\<close>

definition fs_access :: "filesystem \<Rightarrow> path \<Rightarrow> exn + unit" where
  "fs_access fs p = (case lookup fs p of None \<Rightarrow> Inl ENOENT | Some e \<Rightarrow> Inr ())"

text \<open>\<open>fs.readdir(p)\<close>: the names of the entries directly below \<open>p\<close>.\<close>

definition fs_readdir :: "filesystem \<Rightarrow> path \<Rightarrow> exn + ustring list" where
  "fs_readdir fs p =
     (case lookup fs p of
        None \<Rightarrow> Inl ENOENT
      | Some (File c) \<Rightarrow> Inl ENOTDIR
      | Some Dir \<Rightarrow> Inr (map (\<lambda>(q, e). last q) (filter (\<lambda>(q, e). q \<noteq> [] \<and> butlast q = p) fs)))"

text \<open>\<open>fs.rm(p, { recursive: true, force: true })\<close>: \<open>p\<close> and everything below it goes; a
  missing \<open>p\<close> is no error.\<close>

definition fs_rm :: "filesystem \<Rightarrow> path \<Rightarrow> exn + filesystem" where
  "fs_rm fs p = Inr (filter (\<lambda>(q, e). \<not> prefix p q) fs)"

text \<open>\<open>fs.readFile(p, 'utf-8')\<close>\<close>

definition fs_readFile :: "filesystem \<Rightarrow> path \<Rightarrow> exn + ustring" where
  "fs_readFile fs p =
     (case lookup fs p of None \<Rightarrow> Inl ENOENT | Some Dir \<Rightarrow> Inl EISDIR | Some (File c) \<Rightarrow> Inr c)"

text \<open>\<open>fs.writeFile(p, c, 'utf-8')\<close>: creates or replaces the file; the directory holding it
  must exist.\<close>

definition fs_writeFile :: "filesystem \<Rightarrow> path \<Rightarrow> ustring \<Rightarrow> exn + filesystem" where
  "fs_writeFile fs p c =
     (if p = [] then Inl EISDIR
      else (case lookup fs (butlast p) of
              None \<Rightarrow> Inl ENOENT
            | Some (File x) \<Rightarrow> Inl ENOTDIR
            | Some Dir \<Rightarrow>
                (case lookup fs p of
                   Some Dir \<Rightarrow> Inl EISDIR
                 | _ \<Rightarrow> Inr (AList.update p (File c) fs))))"

text \<open>\<open>fs.unlink(p)\<close>\<close>

definition fs_unlink :: "filesystem \<Rightarrow> path \<Rightarrow> exn + filesystem" where
  "fs_unlink fs p =
     (case lookup fs p of
        None \<Rightarrow> Inl ENOENT
      | Some Dir \<Rightarrow> Inl EISDIR
      | Some (File c) \<Rightarrow> Inr (AList.delete p fs))"

text \<open>Neither \<open>d\<close> nor anything below it exists.\<close>

definition absent :: "filesystem \<Rightarrow> path \<Rightarrow> bool" where
  "absent fs d = list_all (\<lambda>(q, e). \<not> prefix d q) fs"

section \<open>JSON values\<close>

text \<open>The values \<open>JSON.parse\<close> returns. An object is the list of its own properties in
  enumeration order. A number is kept as the text \<open>Number.prototype.toString\<close> gives for it
  (\<open>Infinity\<close>, \<open>-Infinity\<close> and \<open>NaN\<close> for the numbers that are not finite): the template
  literal of the report and \<open>JSON.stringify\<close> both take this text.\<close>

datatype json =
    JNull
  | JBool bool
  | JNum ustring
  | JStr ustring
  | JArr "json list"
  | JObj "(ustring \<times> json) list"

section \<open>\<open>JSON.stringify(value, null, 2)\<close>\<close>

text \<open>The serialisation of a value that \<open>JSON.parse\<close> returned (no function, no \<open>undefined\<close>,
  no \<open>toJSON\<close> method), with the indentation of two spaces the program asks for.\<close>

definition hex_digit :: "nat \<Rightarrow> uchar" where
  "hex_digit d = (if d < 10 then 48 + d else 87 + d)"

text \<open>\<open>\uXXXX\<close> with lower-case hexadecimal digits.\<close>

definition unicode_escape :: "uchar \<Rightarrow> ustring" where
  "unicode_escape c =
     [92, 117, hex_digit (c div 4096 mod 16), hex_digit (c div 256 mod 16),
      hex_digit (c div 16 mod 16), hex_digit (c mod 16)]"

text \<open>One code unit inside a quoted string: the short escapes for backspace, tab, line feed,
  form feed, carriage return, the double quote and the backslash; \<open>\uXXXX\<close> for any other
  control character and for a surrogate that is not part of a pair.\<close>

definition quote_unit :: "uchar \<Rightarrow> ustring" where
  "quote_unit c =
     (if c = 8 then [92, 98] else if c = 9 then [92, 116] else if c = 10 then [92, 110]
      else if c = 12 then [92, 102] else if c = 13 then [92, 114]
      else if c = 34 then [92, 34] else if c = 92 then [92, 92]
      else if c < 32 \<or> (55296 \<le> c \<and> c \<le> 57343) then unicode_escape c
      else [c])"

text \<open>A leading surrogate followed by a trailing one is a code point of its own and is kept.\<close>

fun quote_units :: "ustring \<Rightarrow> ustring" where
  "quote_units [] = []"
| "quote_units [c] = quote_unit c"
| "quote_units (c # d # cs) =
     (if 55296 \<le> c \<and> c \<le> 56319 \<and> 56320 \<le> d \<and> d \<le> 57343
      then c # d # quote_units cs
      else quote_unit c @ quote_units (d # cs))"

definition QuoteJSONString :: "ustring \<Rightarrow> ustring" where
  "QuoteJSONString s = 34 # quote_units s @ [34]"

fun join_with :: "ustring \<Rightarrow> ustring list \<Rightarrow> ustring" where
  "join_with sep [] = []"
| "join_with sep [l] = l"
| "join_with sep (l # l' # ls) = l @ sep @ join_with sep (l' # ls)"

text \<open>The numbers that are not finite; \<open>JSON.stringify\<close> writes \<open>null\<close> for them.\<close>

definition not_finite :: "ustring \<Rightarrow> bool" where
  "not_finite n \<longleftrightarrow> n = u ''Infinity'' \<or> n = u ''-Infinity'' \<or> n = u ''NaN''"

text \<open>\<open>serialize indent v\<close>: the text of \<open>v\<close> at the indentation \<open>indent\<close>. The members of a
  non-empty object or array stand one per line, two spaces deeper, separated by commas; the
  closing bracket stands at the indentation of the opening one.\<close>

fun serialize :: "ustring \<Rightarrow> json \<Rightarrow> ustring" where
  "serialize indent JNull = u ''null''"
| "serialize indent (JBool b) = (if b then u ''true'' else u ''false'')"
| "serialize indent (JNum n) = (if not_finite n then u ''null'' else n)"
| "serialize indent (JStr s) = QuoteJSONString s"
| "serialize indent (JArr xs) =
     (if xs = [] then u ''[]''
      else u ''['' @ 10 # (indent @ u ''  '') @
           join_with (44 # 10 # indent @ u ''  '') (map (serialize (indent @ u ''  '')) xs) @
           10 # indent @ u '']'')"
| "serialize indent (JObj props) =
     (if props = [] then u ''{}''
      else u ''{'' @ 10 # (indent @ u ''  '') @
           join_with (44 # 10 # indent @ u ''  '')
             (map (\<lambda>p. QuoteJSONString (fst p) @ u '': '' @ serialize (indent @ u ''  '') (snd p))
                  props) @
           10 # indent @ u ''}'')"

definition JSON_stringify :: "json \<Rightarrow> ustring" where
  "JSON_stringify v = serialize [] v"

text \<open>The value a serialisation stands for: the value itself, with \<open>null\<close> in the place of
  every number that is not finite.\<close>

fun as_written :: "json \<Rightarrow> json" where
  "as_written (JNum n) = (if not_finite n then JNull else JNum n)"
| "as_written (JArr xs) = JArr (map as_written xs)"
| "as_written (JObj props) = JObj (map (\<lambda>p. (fst p, as_written (snd p))) props)"
| "as_written v = v"

text \<open>Every number in the value is finite.\<close>

fun all_finite :: "json \<Rightarrow> bool" where
  "all_finite (JNum n) = (\<not> not_finite n)"
| "all_finite (JArr xs) = list_all all_finite xs"
| "all_finite (JObj props) = list_all (\<lambda>p. all_finite (snd p)) props"
| "all_finite v = True"

section \<open>The environment of a run\<close>

text \<open>The places where the program calls the filesystem (one per call in the source).\<close>

datatype site =
    AccessTarget | ReaddirTarget | RmDocs | RmBlog | ReadPkg | WritePkg | WriteCss
  | UnlinkComponent ustring | ReadLayout | WriteLayout | WritePage | RmGit | RereadPkg

text \<open>
  What a run depends on besides the arguments and the filesystem:
  \<^item> \<open>cwd\<close>: \<open>process.cwd()\<close>;
  \<^item> \<open>fault\<close>: the filesystem calls that fail for a reason the tree does not show (permissions,
    I/O errors); such a call throws and changes nothing;
  \<^item> \<open>JSON_parse\<close>: the built-in \<open>JSON.parse(text)\<close> (\<open>None\<close>: it throws);
  \<^item> \<open>git_clone\<close>, \<open>git_init\<close>, \<open>npm_install\<close>: the external commands run through \<open>exec\<close>, each
    giving whether it succeeded and the filesystem it leaves;
  \<^item> \<open>newCssContent\<close>, \<open>newPageContent\<close>: the two fixed texts of the source (lines 113-334 and
    372-429).
\<close>

record env =
  cwd :: path
  fault :: "site \<Rightarrow> bool"
  JSON_parse :: "ustring \<Rightarrow> json option"
  git_clone :: "path \<Rightarrow> filesystem \<Rightarrow> bool \<times> filesystem"
  git_init :: "path \<Rightarrow> filesystem \<Rightarrow> bool \<times> filesystem"
  npm_install :: "path \<Rightarrow> filesystem \<Rightarrow> bool \<times> filesystem"
  newCssContent :: ustring
  newPageContent :: ustring

definition guarded :: "env \<Rightarrow> site \<Rightarrow> exn + 'a \<Rightarrow> exn + 'a" where
  "guarded env s r = (if fault env s then Inl EOTHER else r)"

section \<open>The state of a run\<close>

text \<open>What the user sees: the spinner calls \<open>ora(..).start()\<close>, \<open>succeed\<close>, \<open>fail\<close>, \<open>warn\<close>,
  \<open>console.log\<close>, \<open>console.error\<close>, and the text handed to \<open>boxen\<close>. Colours are left out.\<close>

datatype out =
    Start ustring | Succeed ustring | Fail ustring | Warn ustring
  | ConsoleLog ustring | ConsoleError ustring | Boxed ustring

record world =
  files :: filesystem
  console :: "out list"

text \<open>\<open>Inl (code, w)\<close>: \<open>process.exit(code)\<close> was called in world \<open>w\<close>; \<open>Inr w\<close>: the run goes on.\<close>

type_synonym outcome = "(nat \<times> world) + world"

definition say :: "out \<Rightarrow> world \<Rightarrow> world" where
  "say m w = w\<lparr>console := console w @ [m]\<rparr>"

definition andthen :: "outcome \<Rightarrow> (world \<Rightarrow> outcome) \<Rightarrow> outcome" where
  "andthen r f = (case r of Inl x \<Rightarrow> Inl x | Inr w \<Rightarrow> f w)"

text \<open>The exit code of the process: the argument of \<open>process.exit\<close>, or 0 when \<open>main\<close>
  returns.\<close>

fun exit_code :: "outcome \<Rightarrow> nat" where
  "exit_code (Inl (code, w)) = code"
| "exit_code (Inr w) = 0"

fun final_world :: "outcome \<Rightarrow> world" where
  "final_world (Inl (code, w)) = w"
| "final_world (Inr w) = w"

section \<open>The program (src/index.js, function \<open>main\<close>)\<close>

subsection \<open>Lines 46-49: project name and target directory\<close>

definition projectName :: "env \<Rightarrow> ustring \<Rightarrow> ustring" where
  "projectName env providedPath = path_basename (path_resolve (cwd env) [providedPath])"

definition targetDir :: "env \<Rightarrow> ustring \<Rightarrow> path" where
  "targetDir env providedPath =
     path_resolve (cwd env) [path_to_string (cwd env), providedPath]"

subsection \<open>Lines 51-61: the target directory must be empty\<close>

definition check_target :: "env \<Rightarrow> path \<Rightarrow> world \<Rightarrow> outcome" where
  "check_target env target w =
     (case guarded env AccessTarget (fs_access (files w) target) of
        Inl err \<Rightarrow> Inr w
      | Inr ok \<Rightarrow>
          (case guarded env ReaddirTarget (fs_readdir (files w) target) of
             Inl err \<Rightarrow> Inr w
           | Inr names \<Rightarrow>
               if length names > 0
               then Inl (1, say (ConsoleError (u ''Error: Directory '' @ [34] @
                                  path_to_string target @ [34] @ u '' is not empty.'')) w)
               else Inr w))"

subsection \<open>Lines 63-71: clone the template\<close>

definition clone :: "env \<Rightarrow> path \<Rightarrow> world \<Rightarrow> outcome" where
  "clone env target w =
     (let w1 = say (Start (u ''Setting up project...'')) w;
          (ok, fs') = git_clone env target (files w1)
      in if ok then Inr (say (Succeed (u ''Repository cloned.'')) (w1\<lparr>files := fs'\<rparr>))
         else Inl (1, say (Fail (u ''Project setup failed: Cloning repository failed.''))
                        (w1\<lparr>files := fs'\<rparr>)))"

subsection \<open>Lines 73-83: remove the docs and blog directories\<close>

definition docsDir :: "path \<Rightarrow> path" where
  "docsDir target = path_join target [u ''src'', u ''app'', u ''docs'']"

definition blogDir :: "path \<Rightarrow> path" where
  "blogDir target = path_join target [u ''src'', u ''app'', u ''blog'']"

definition setup_directories :: "env \<Rightarrow> path \<Rightarrow> world \<Rightarrow> outcome" where
  "setup_directories env target w =
     (let w1 = say (Start (u ''Setting up directories...'')) w;
          warned = say (Warn (u ''Some issues encountered during directory setup.''))
      in case guarded env RmDocs (fs_rm (files w1) (docsDir target)) of
           Inl err \<Rightarrow> Inr (warned w1)
         | Inr fs1 \<Rightarrow>
             (case guarded env RmBlog (fs_rm fs1 (blogDir target)) of
                Inl err \<Rightarrow> Inr (warned (w1\<lparr>files := fs1\<rparr>))
              | Inr fs2 \<Rightarrow> Inr (say (Succeed (u ''Directories set up.'')) (w1\<lparr>files := fs2\<rparr>))))"

subsection \<open>Lines 85-106: rewrite package.json\<close>

definition pkgPath :: "path \<Rightarrow> path" where
  "pkgPath target = path_join target [u ''package.json'']"

text \<open>Lines 93-99. The assignments throw on \<open>null\<close>; on an object they set or add the
  property (a new property comes last) and \<open>delete\<close> removes it; on any other value they do
  nothing that \<open>JSON.stringify\<close> shows (the module is not in strict mode, so writing a
  property of a primitive is ignored, and a named property of an array is not serialised).\<close>

fun rewrite_manifest :: "ustring \<Rightarrow> json \<Rightarrow> exn + json" where
  "rewrite_manifest name JNull = Inl TypeError"
| "rewrite_manifest name (JObj props) =
     Inr (JObj (AList.update (u ''description'') (JStr [])
               (AList.update (u ''version'') (JStr (u ''0.0.0''))
               (AList.delete (u ''author'')
               (AList.delete (u ''keywords'')
               (AList.update (u ''name'') (JStr name) props))))))"
| "rewrite_manifest name v = Inr v"

text \<open>\<open>JSON.parse(await fs.readFile(pkgPath, 'utf-8'))\<close>, at lines 89-90 and 463-464.\<close>

definition read_manifest :: "env \<Rightarrow> site \<Rightarrow> filesystem \<Rightarrow> path \<Rightarrow> exn + json" where
  "read_manifest env s fs target =
     (case guarded env s (fs_readFile fs (pkgPath target)) of
        Inl err \<Rightarrow> Inl err
      | Inr pkgData \<Rightarrow>
          (case JSON_parse env pkgData of None \<Rightarrow> Inl SyntaxError | Some pkgJson \<Rightarrow> Inr pkgJson))"

definition setup_package :: "env \<Rightarrow> path \<Rightarrow> ustring \<Rightarrow> world \<Rightarrow> outcome" where
  "setup_package env target name w =
     (let w1 = say (Start (u ''Setting up package.json...'')) w;
          failed = Inl (1, say (Fail (u ''Failed to set up package.json.'')) w1)
      in case read_manifest env ReadPkg (files w1) target of
           Inl err \<Rightarrow> failed
         | Inr pkgJson \<Rightarrow>
             (case rewrite_manifest name pkgJson of
                Inl err \<Rightarrow> failed
              | Inr pkgJson' \<Rightarrow>
                  (case guarded env WritePkg
                          (fs_writeFile (files w1) (pkgPath target) (JSON_stringify pkgJson')) of
                     Inl err \<Rightarrow> failed
                   | Inr fs' \<Rightarrow>
                       Inr (say (Succeed (u ''package.json set up.'')) (w1\<lparr>files := fs'\<rparr>)))))"

subsection \<open>Lines 108-435: customise the application files\<close>

text \<open>A sub-operation whose failure is swallowed: the filesystem stays as it was.\<close>

definition attempt :: "filesystem \<Rightarrow> exn + filesystem \<Rightarrow> filesystem" where
  "attempt fs r = (case r of Inl err \<Rightarrow> fs | Inr fs' \<Rightarrow> fs')"

definition filesToRemove :: "ustring list" where
  "filesToRemove = [u ''CodeBlock.js'', u ''Footer.js'', u ''Header.js'', u ''Peach3dModel.js'']"

definition cssPath :: "path \<Rightarrow> path" where
  "cssPath target = path_join target [u ''src'', u ''index.css'']"

definition componentsDir :: "path \<Rightarrow> path" where
  "componentsDir target = path_join target [u ''src'', u ''components'']"

definition layoutPath :: "path \<Rightarrow> path" where
  "layoutPath target = path_join target [u ''src'', u ''app'', u ''layout.js'']"

definition pagePath :: "path \<Rightarrow> path" where
  "pagePath target = path_join target [u ''src'', u ''app'', u ''page.js'']"

text \<open>Lines 335-339.\<close>

definition replace_css :: "env \<Rightarrow> path \<Rightarrow> filesystem \<Rightarrow> filesystem" where
  "replace_css env target fs =
     attempt fs (guarded env WriteCss (fs_writeFile fs (cssPath target) (newCssContent env)))"

text \<open>Lines 342-351.\<close>

definition remove_components :: "env \<Rightarrow> path \<Rightarrow> filesystem \<Rightarrow> filesystem" where
  "remove_components env target fs =
     fold (\<lambda>file fs'. attempt fs' (guarded env (UnlinkComponent file)
                                     (fs_unlink fs' (path_join (componentsDir target) [file]))))
          filesToRemove fs"

text \<open>Lines 354-368: a failed read skips the write as well.\<close>

definition update_layout :: "env \<Rightarrow> path \<Rightarrow> filesystem \<Rightarrow> filesystem" where
  "update_layout env target fs =
     (case guarded env ReadLayout (fs_readFile fs (layoutPath target)) of
        Inl err \<Rightarrow> fs
      | Inr layoutContent \<Rightarrow>
          attempt fs (guarded env WriteLayout
                        (fs_writeFile fs (layoutPath target) (patch_layout layoutContent))))"

text \<open>Lines 430-434.\<close>

definition overwrite_page :: "env \<Rightarrow> path \<Rightarrow> filesystem \<Rightarrow> filesystem" where
  "overwrite_page env target fs =
     attempt fs (guarded env WritePage (fs_writeFile fs (pagePath target) (newPageContent env)))"

definition customize :: "env \<Rightarrow> path \<Rightarrow> world \<Rightarrow> outcome" where
  "customize env target w =
     (let w1 = say (Start (u ''Customizing application files...'')) w;
          fs' = overwrite_page env target
                  (update_layout env target
                    (remove_components env target
                      (replace_css env target (files w1))))
      in Inr (say (Succeed (u ''Application files customized.'')) (w1\<lparr>files := fs'\<rparr>)))"

subsection \<open>Lines 437-447: version control\<close>

definition gitDir :: "path \<Rightarrow> path" where
  "gitDir target = path_join target [u ''.git'']"

definition setup_version_control :: "env \<Rightarrow> path \<Rightarrow> world \<Rightarrow> outcome" where
  "setup_version_control env target w =
     (let w1 = say (Start (u ''Setting up version control...'')) w;
          failed = say (Fail (u ''Failed to set up version control.''))
      in case guarded env RmGit (fs_rm (files w1) (gitDir target)) of
           Inl err \<Rightarrow> Inl (1, failed w1)
         | Inr fs1 \<Rightarrow>
             (let (ok, fs2) = git_init env target fs1
              in if ok then Inr (say (Succeed (u ''Version control set up.'')) (w1\<lparr>files := fs2\<rparr>))
                 else Inl (1, failed (w1\<lparr>files := fs2\<rparr>))))"

subsection \<open>Lines 449-457: dependencies\<close>

definition install_dependencies :: "env \<Rightarrow> path \<Rightarrow> world \<Rightarrow> outcome" where
  "install_dependencies env target w =
     (let w1 = say (Start (u ''Installing dependencies...'')) w;
          (ok, fs') = npm_install env target (files w1)
      in if ok then Inr (say (Succeed (u ''Dependencies installed.'')) (w1\<lparr>files := fs'\<rparr>))
         else Inl (1, say (Fail (u ''Dependency installation failed.'')) (w1\<lparr>files := fs'\<rparr>)))"

subsection \<open>Lines 459-487: report the npm scripts\<close>

text \<open>The first error of a list of results, or all the values.\<close>

fun sequence :: "(exn + 'a) list \<Rightarrow> exn + 'a list" where
  "sequence [] = Inr []"
| "sequence (Inl err # rs) = Inl err"
| "sequence (Inr x # rs) = (case sequence rs of Inl err \<Rightarrow> Inl err | Inr xs \<Rightarrow> Inr (x # xs))"

text \<open>The conversion to a string that a template literal applies to a parsed JSON value. An
  array joins its elements with commas, \<open>null\<close> elements as empty strings. An object gives
  \<open>[object Object]\<close>, unless it has a property \<open>toString\<close> of its own: that value is not a
  function, \<open>valueOf\<close> gives no primitive either, and the conversion throws.\<close>

fun ToString :: "json \<Rightarrow> exn + ustring" where
  "ToString JNull = Inr (u ''null'')"
| "ToString (JBool b) = Inr (if b then u ''true'' else u ''false'')"
| "ToString (JNum n) = Inr n"
| "ToString (JStr s) = Inr s"
| "ToString (JArr xs) =
     (case sequence (map (\<lambda>x. if x = JNull then Inr [] else ToString x) xs) of
        Inl err \<Rightarrow> Inl err
      | Inr ss \<Rightarrow> Inr (join_on 44 ss))"
| "ToString (JObj props) =
     (if u ''toString'' \<in> fst ` set props then Inl TypeError else Inr (u ''[object Object]''))"

text \<open>The decimal digits of an array index.\<close>

fun index_name :: "nat \<Rightarrow> ustring" where
  "index_name n = (if n < 10 then [48 + n] else index_name (n div 10) @ [48 + n mod 10])"

declare index_name.simps [simp del]

text \<open>\<open>Object.entries(v)\<close>: the own enumerable properties; the indices of an array or of a
  string; nothing for a number or a boolean.\<close>

fun Object_entries :: "json \<Rightarrow> (ustring \<times> json) list" where
  "Object_entries (JObj props) = props"
| "Object_entries (JArr xs) = zip (map index_name [0..<length xs]) xs"
| "Object_entries (JStr s) = zip (map index_name [0..<length s]) (map (\<lambda>c. JStr [c]) s)"
| "Object_entries v = []"

text \<open>Truthiness, as \<open>scripts && ...\<close> tests it.\<close>

fun truthy :: "json \<Rightarrow> bool" where
  "truthy JNull = False"
| "truthy (JBool b) = b"
| "truthy (JNum n) = (n \<noteq> u ''0'' \<and> n \<noteq> u ''NaN'')"
| "truthy (JStr s) = (s \<noteq> [])"
| "truthy v = True"

text \<open>\<open>pkgJson.scripts\<close>: throws on \<open>null\<close>; \<open>None\<close> is \<open>undefined\<close>.\<close>

fun get_scripts :: "json \<Rightarrow> exn + json option" where
  "get_scripts JNull = Inl TypeError"
| "get_scripts (JObj props) = Inr (map_of props (u ''scripts''))"
| "get_scripts v = Inr None"

definition script_line :: "ustring \<times> json \<Rightarrow> exn + ustring" where
  "script_line e =
     (case ToString (snd e) of
        Inl err \<Rightarrow> Inl err
      | Inr command \<Rightarrow> Inr (u ''npm run '' @ fst e @ u ''  ->  '' @ command))"

text \<open>Lines 465-472.\<close>

definition available_scripts :: "json \<Rightarrow> exn + ustring" where
  "available_scripts pkgJson =
     (case get_scripts pkgJson of
        Inl err \<Rightarrow> Inl err
      | Inr None \<Rightarrow> Inr (u ''No npm scripts available.'')
      | Inr (Some scripts) \<Rightarrow>
          if truthy scripts \<and> length (Object_entries scripts) > 0
          then (case sequence (map script_line (Object_entries scripts)) of
                  Inl err \<Rightarrow> Inl err
                | Inr ls \<Rightarrow> Inr (join_on 10 ls))
          else Inr (u ''No npm scripts available.''))"

definition report :: "env \<Rightarrow> path \<Rightarrow> world \<Rightarrow> outcome" where
  "report env target w =
     (let w1 = say (Start (u ''Finalizing setup...'')) w;
          fetched = (case read_manifest env RereadPkg (files w1) target of
                       Inl err \<Rightarrow> Inl err
                     | Inr pkgJson \<Rightarrow> available_scripts pkgJson);
          (w2, availableScripts) =
             (case fetched of
                Inr text \<Rightarrow> (say (Succeed (u ''Setup finalized.'')) w1, text)
              | Inl err \<Rightarrow> (say (Warn (u ''Final setup encountered issues.'')) w1,
                             u ''Unable to fetch npm scripts.''))
      in Inr (say (Boxed availableScripts)
               (say (ConsoleLog (u ''Project setup complete! Happy Coding!'')) w2)))"

subsection \<open>The whole of \<open>main\<close>\<close>

text \<open>The steps after a successful clone, up to the installation of the dependencies.\<close>

definition setup_steps :: "env \<Rightarrow> path \<Rightarrow> ustring \<Rightarrow> world \<Rightarrow> outcome" where
  "setup_steps env target name w =
     andthen (andthen (andthen (andthen
       (setup_directories env target w)
       (setup_package env target name))
       (customize env target))
       (setup_version_control env target))
       (install_dependencies env target)"

definition after_clone :: "env \<Rightarrow> path \<Rightarrow> ustring \<Rightarrow> world \<Rightarrow> outcome" where
  "after_clone env target name w =
     andthen (setup_steps env target name w) (report env target)"

text \<open>The steps from the clone on.\<close>

definition from_clone :: "env \<Rightarrow> path \<Rightarrow> ustring \<Rightarrow> world \<Rightarrow> outcome" where
  "from_clone env target name w = andthen (clone env target w) (after_clone env target name)"

text \<open>\<open>main\<close>, run with the arguments \<open>args\<close> (\<open>process.argv.slice(2)\<close>) on the filesystem
  \<open>fs\<close>. Nothing outside the inner \<open>try\<close> blocks throws, so the outer \<open>catch\<close> of lines
  488-491 is never entered.\<close>

definition main :: "env \<Rightarrow> ustring list \<Rightarrow> filesystem \<Rightarrow> outcome" where
  "main env args fs =
     (let w = \<lparr>files = fs, console = []\<rparr>
      in case args of
           [] \<Rightarrow> Inl (1, say (ConsoleError (u ''Usage: create-peachy-app <project-directory>'')) w)
         | providedPath # rest \<Rightarrow>
             andthen (check_target env (targetDir env providedPath) w)
                     (from_clone env (targetDir env providedPath) (projectName env providedPath)))"


text \<open>The text of a command as the report prints it (empty where the conversion throws).\<close>

definition command_text :: "json \<Rightarrow> ustring" where
  "command_text v = (case ToString v of Inl err \<Rightarrow> [] | Inr s \<Rightarrow> s)"

section \<open>Example runs\<close>

text \<open>A small template, and an environment in which every collaborator succeeds.
  \<open>JSON.parse\<close> is given on the manifest texts of the example only.\<close>

definition demo_manifest :: json where
  "demo_manifest = JObj [(u ''name'', JStr (u ''peachy'')), (u ''version'', JStr (u ''1.2.3'')),
     (u ''keywords'', JArr [JStr (u ''framework'')]), (u ''author'', JStr (u ''Sid'')),
     (u ''scripts'', JObj [(u ''start'', JStr (u ''peachy dev'')),
                           (u ''build'', JStr (u ''peachy build''))])]"

definition demo_rewritten :: json where
  "demo_rewritten = JObj [(u ''name'', JStr (u ''my-app'')), (u ''version'', JStr (u ''0.0.0'')),
     (u ''scripts'', JObj [(u ''start'', JStr (u ''peachy dev'')),
                           (u ''build'', JStr (u ''peachy build''))]),
     (u ''description'', JStr [])]"

definition demo_layout :: ustring where
  "demo_layout = join_on 10 [u ''import Header from x;'', u ''  <Header />'', u ''  <main/>'']"

definition demo_template :: "path \<Rightarrow> filesystem" where
  "demo_template t = [(t, Dir), (t @ [u ''.git''], Dir),
     (t @ [u ''package.json''], File (u ''template manifest'')),
     (t @ [u ''src''], Dir),
     (t @ [u ''src'', u ''components''], Dir),
     (t @ [u ''src'', u ''components'', u ''Header.js''], File (u ''header'')),
     (t @ [u ''src'', u ''app''], Dir),
     (t @ [u ''src'', u ''app'', u ''layout.js''], File demo_layout),
     (t @ [u ''src'', u ''app'', u ''docs''], Dir),
     (t @ [u ''src'', u ''app'', u ''docs'', u ''page.js''], File (u ''docs''))]"

definition demo_env :: env where
  "demo_env = \<lparr> cwd = [u ''home''], fault = (\<lambda>s. False),
     JSON_parse = (\<lambda>t. if t = u ''template manifest'' then Some demo_manifest
                        else if t = u ''rewritten manifest'' then Some demo_rewritten
                        else if t = JSON_stringify demo_rewritten then Some demo_rewritten
                        else None),
     git_clone = (\<lambda>t fs. (True, fs @ demo_template t)),
     git_init = (\<lambda>t fs. (True, AList.update (t @ [u ''.git'']) Dir fs)),
     npm_install = (\<lambda>t fs. (True, AList.update (t @ [u ''node_modules'']) Dir fs)),
     newCssContent = u ''@tailwind base;'', newPageContent = u ''export default'' \<rparr>"

text \<open>The working directory alone, and with a non-empty \<open>my-app\<close> in it.\<close>

definition empty_fs :: filesystem where
  "empty_fs = [([u ''home''], Dir)]"

definition busy_fs :: filesystem where
  "busy_fs = [([u ''home''], Dir), ([u ''home'', u ''my-app''], Dir),
              ([u ''home'', u ''my-app'', u ''notes.txt''], File (u ''keep''))]"

text \<open>The directory listing fails.\<close>

definition unreadable_env :: env where
  "unreadable_env = demo_env\<lparr>fault := (\<lambda>s. s = ReaddirTarget)\<rparr>"

text \<open>The clone fails and leaves an empty directory behind.\<close>

definition offline_env :: env where
  "offline_env = demo_env\<lparr>git_clone := (\<lambda>t fs. (False, fs @ [(t, Dir)]))\<rparr>"

text \<open>Every filesystem call fails, except the read and the write of the manifest.\<close>

definition blocked_env :: env where
  "blocked_env = demo_env\<lparr>fault := (\<lambda>s. s \<noteq> ReadPkg \<and> s \<noteq> WritePkg)\<rparr>"

text \<open>The world right after the clone of the example.\<close>

definition cloned :: world where
  "cloned = \<lparr>files = empty_fs @ demo_template [u ''home'', u ''my-app''],
             console = [Start (u ''Setting up project...''), Succeed (u ''Repository cloned.'')]\<rparr>"

text \<open>A manifest whose only script is an object with a property \<open>toString\<close>.\<close>

definition odd_manifest :: json where
  "odd_manifest = JObj [(u ''scripts'', JObj [(u ''build'', JObj [(u ''toString'', JNull)])])]"

definition odd_env :: env where
  "odd_env = demo_env\<lparr>JSON_parse := (\<lambda>t. Some odd_manifest)\<rparr>"

definition installed :: world where
  "installed = \<lparr>files = [([u ''home'', u ''my-app'', u ''package.json''],
                            File (u ''rewritten manifest''))],
                console = []\<rparr>"

text \<open>A template manifest with numbers too large for a double: \<open>JSON.parse\<close> reads \<open>1e999\<close> as
  \<open>Infinity\<close>.\<close>

definition lossy_text :: ustring where
  \<open>lossy_text = u ''{"big":1e999,"scripts":{"s":1e999}}''\<close>

definition lossy_manifest :: json where
  "lossy_manifest = JObj [(u ''big'', JNum (u ''Infinity'')),
                          (u ''scripts'', JObj [(u ''s'', JNum (u ''Infinity''))])]"

definition lossy_written :: ustring where
  \<open>lossy_written = join_on 10
     [u ''{'',
      u ''  "big": null,'',
      u ''  "scripts": {'',
      u ''    "s": null'',
      u ''  },'',
      u ''  "name": "my-app",'',
      u ''  "version": "0.0.0",'',
      u ''  "description": ""'',
      u ''}'']\<close>

definition lossy_readback :: json where
  "lossy_readback = JObj [(u ''big'', JNull), (u ''scripts'', JObj [(u ''s'', JNull)]),
     (u ''name'', JStr (u ''my-app'')), (u ''version'', JStr (u ''0.0.0'')),
     (u ''description'', JStr [])]"

definition lossy_env :: env where
  "lossy_env = demo_env\<lparr>JSON_parse := (\<lambda>t. if t = lossy_text then Some lossy_manifest
                                              else if t = lossy_written then Some lossy_readback
                                              else None)\<rparr>"

definition lossy_cloned :: world where
  "lossy_cloned = \<lparr>files = [([u ''home''], Dir), ([u ''home'', u ''my-app''], Dir),
                             ([u ''home'', u ''my-app'', u ''package.json''], File lossy_text)],
                   console = []\<rparr>"

text \<open>The text of the rewritten manifest of the first example.\<close>

definition demo_written :: ustring where
  \<open>demo_written = join_on 10
     [u ''{'',
      u ''  "name": "my-app",'',
      u ''  "version": "0.0.0",'',
      u ''  "scripts": {'',
      u ''    "start": "peachy dev",'',
      u ''    "build": "peachy build"'',
      u ''  },'',
      u ''  "description": ""'',
      u ''}'']\<close>

text \<open>A layout with markers inside other text, two markers on one line and a comment that
  mentions a symbol.\<close>

definition mixed_layout :: ustring where
  "mixed_layout = join_on 10 [u ''import Header from x;'', u ''<div><Header/></div>'',
                              u ''<Header /><Footer />'', u ''// Header stays'']"

section \<open>Basic facts\<close>

lemma u_eq_iff: "u s = u t \<longleftrightarrow> s = t"
  by (simp add: u_def inj_map_eq_map inj_on_def)

lemma u_Nil: "u s = [] \<longleftrightarrow> s = []" "[] = u s \<longleftrightarrow> s = []"
  by (auto simp: u_def)

lemma targetDir_demo:
  "cwd env = [u ''home''] \<Longrightarrow> targetDir env (u ''my-app'') = [u ''home'', u ''my-app'']"
  by (simp add: targetDir_def path_resolve_def u_def)

lemma projectName_demo:
  "cwd env = [u ''home''] \<Longrightarrow> projectName env (u ''my-app'') = u ''my-app''"
  by (simp add: projectName_def path_resolve_def path_basename_def u_def)

lemma cwd_demo:
  "cwd demo_env = [u ''home'']" "cwd unreadable_env = [u ''home'']"
  "cwd offline_env = [u ''home'']" "cwd blocked_env = [u ''home'']" "cwd odd_env = [u ''home'']"
  by (simp_all add: demo_env_def unreadable_env_def offline_env_def blocked_env_def odd_env_def)

lemma andthen_Inl: "andthen (Inl x) f = Inl x"
  by (simp add: andthen_def)

lemma andthen_Inr: "andthen (Inr w) f = f w"
  by (simp add: andthen_def)

lemma andthen_eq_Inr: "andthen r f = Inr w' \<longleftrightarrow> (\<exists>w. r = Inr w \<and> f w = Inr w')"
  by (cases r) (simp_all add: andthen_def)

lemma files_say: "files (say m w) = files w"
  by (simp add: say_def)

lemma console_say: "console (say m w) = console w @ [m]"
  by (simp add: say_def)

lemma check_target_cases:
  "check_target env t w = Inr w \<or>
   (\<exists>names. guarded env AccessTarget (fs_access (files w) t) = Inr () \<and>
            guarded env ReaddirTarget (fs_readdir (files w) t) = Inr names \<and> names \<noteq> [] \<and>
            check_target env t w =
              Inl (1, say (ConsoleError (u ''Error: Directory '' @ [34] @ path_to_string t @ [34] @
                                         u '' is not empty.'')) w))"
  by (auto simp: check_target_def split: sum.splits)

lemma check_target_Inr: "check_target env t w = Inr w' \<Longrightarrow> w' = w"
  using check_target_cases [of env t w] by auto

text \<open>
  Claim C9. When the existence check or the directory listing of the target throws, the
  check of lines 51-61 does nothing: the world is unchanged, nothing is printed, and the run
  continues with the clone exactly as it does for a path that does not exist. The fatal
  "directory not empty" exit happens only when the listing succeeded and was not empty.
\<close>

theorem unreadable_target_skips_check:
  "((\<exists>err. guarded env AccessTarget (fs_access fs (targetDir env p)) = Inl err) \<or>
    (\<exists>err. guarded env ReaddirTarget (fs_readdir fs (targetDir env p)) = Inl err)
      \<longrightarrow> check_target env (targetDir env p) \<lparr>files = fs, console = []\<rparr>
            = Inr \<lparr>files = fs, console = []\<rparr> \<and>
          main env (p # rest) fs =
            from_clone env (targetDir env p) (projectName env p) \<lparr>files = fs, console = []\<rparr>) \<and>
   (lookup fs (targetDir env p) = None
      \<longrightarrow> main env (p # rest) fs =
            from_clone env (targetDir env p) (projectName env p) \<lparr>files = fs, console = []\<rparr>) \<and>
   ((\<exists>x. check_target env (targetDir env p) \<lparr>files = fs, console = []\<rparr> = Inl x)
      \<longrightarrow> (\<exists>names. guarded env ReaddirTarget (fs_readdir fs (targetDir env p)) = Inr names \<and>
                   names \<noteq> []))"
proof (intro conjI impI)
  assume a: "(\<exists>err. guarded env AccessTarget (fs_access fs (targetDir env p)) = Inl err) \<or>
    (\<exists>err. guarded env ReaddirTarget (fs_readdir fs (targetDir env p)) = Inl err)"
  then show c: "check_target env (targetDir env p) \<lparr>files = fs, console = []\<rparr>
            = Inr \<lparr>files = fs, console = []\<rparr>"
    by (auto simp: check_target_def split: sum.splits)
  show "main env (p # rest) fs =
            from_clone env (targetDir env p) (projectName env p) \<lparr>files = fs, console = []\<rparr>"
    by (simp add: main_def c andthen_Inr)
next
  assume "lookup fs (targetDir env p) = None"
  then have "check_target env (targetDir env p) \<lparr>files = fs, console = []\<rparr>
            = Inr \<lparr>files = fs, console = []\<rparr>"
    by (simp add: check_target_def guarded_def fs_access_def)
  then show "main env (p # rest) fs =
            from_clone env (targetDir env p) (projectName env p) \<lparr>files = fs, console = []\<rparr>"
    by (simp add: main_def andthen_Inr)
next
  assume "\<exists>x. check_target env (targetDir env p) \<lparr>files = fs, console = []\<rparr> = Inl x"
  then show "\<exists>names. guarded env ReaddirTarget (fs_readdir fs (targetDir env p)) = Inr names \<and>
                   names \<noteq> []"
    using check_target_cases [of env "targetDir env p" "\<lparr>files = fs, console = []\<rparr>"] by auto
qed

theorem unreadable_target_skips_check_witness:
  "main unreadable_env [u ''my-app''] busy_fs =
     from_clone unreadable_env [u ''home'', u ''my-app''] (u ''my-app'')
       \<lparr>files = busy_fs, console = []\<rparr> \<and>
   main demo_env [u ''my-app''] empty_fs =
     from_clone demo_env [u ''home'', u ''my-app''] (u ''my-app'')
       \<lparr>files = empty_fs, console = []\<rparr>"
proof -
  have 1: "guarded unreadable_env ReaddirTarget
             (fs_readdir busy_fs (targetDir unreadable_env (u ''my-app''))) = Inl EOTHER"
    by (simp add: guarded_def unreadable_env_def)
  have 2: "lookup empty_fs (targetDir demo_env (u ''my-app'')) = None"
    by (simp add: targetDir_demo cwd_demo lookup_def empty_fs_def u_eq_iff)
  show ?thesis
    using unreadable_target_skips_check [of unreadable_env busy_fs "u ''my-app''" "[]"]
      unreadable_target_skips_check [of demo_env empty_fs "u ''my-app''" "[]"] 1 2
    by (simp add: targetDir_demo projectName_demo cwd_demo)
qed



text \<open>
  Claim C8. When the clone fails, the run ends with exit code 1 right there: the filesystem is
  the one the clone left, and the output is the start and the failure of the clone, so no
  later step has started.
\<close>

theorem failed_clone_stops_the_run:
  assumes "check_target env (targetDir env p) \<lparr>files = fs, console = []\<rparr> = Inr w"
    and "git_clone env (targetDir env p) fs = (False, fs')"
  shows "main env (p # rest) fs =
           Inl (1, \<lparr>files = fs',
                    console = [Start (u ''Setting up project...''),
                               Fail (u ''Project setup failed: Cloning repository failed.'')]\<rparr>) \<and>
         exit_code (main env (p # rest) fs) \<noteq> 0 \<and>
         files (final_world (main env (p # rest) fs)) = fs'"
proof -
  have w: "w = \<lparr>files = fs, console = []\<rparr>"
    using assms(1) by (rule check_target_Inr)
  have "clone env (targetDir env p) \<lparr>files = fs, console = []\<rparr> =
     Inl (1, \<lparr>files = fs',
                    console = [Start (u ''Setting up project...''),
                               Fail (u ''Project setup failed: Cloning repository failed.'')]\<rparr>)"
    using assms(2) by (simp add: clone_def say_def)
  then show ?thesis
    using assms(1) by (simp add: main_def w from_clone_def andthen_Inl andthen_Inr)
qed

theorem failed_clone_stops_the_run_witness:
  "main offline_env [u ''my-app''] empty_fs =
     Inl (1, \<lparr>files = empty_fs @ [([u ''home'', u ''my-app''], Dir)],
              console = [Start (u ''Setting up project...''),
                         Fail (u ''Project setup failed: Cloning repository failed.'')]\<rparr>)"
proof -
  have 1: "check_target offline_env (targetDir offline_env (u ''my-app''))
             \<lparr>files = empty_fs, console = []\<rparr> = Inr \<lparr>files = empty_fs, console = []\<rparr>"
    by (simp add: targetDir_demo cwd_demo check_target_def guarded_def fs_access_def lookup_def
          empty_fs_def u_eq_iff)
  have 2: "git_clone offline_env (targetDir offline_env (u ''my-app'')) empty_fs =
             (False, empty_fs @ [([u ''home'', u ''my-app''], Dir)])"
    by (simp add: targetDir_demo cwd_demo offline_env_def)
  show ?thesis
    using failed_clone_stops_the_run [OF 1 2, of "[]"] by simp
qed

lemma customize_Inr:
  "\<exists>w'. customize env t w = Inr w' \<and>
        console w' = console w @ [Start (u ''Customizing application files...''),
                                  Succeed (u ''Application files customized.'')]"
  by (simp add: customize_def Let_def say_def)

lemma console_setup_version_control:
  "prefix (console w @ [Start (u ''Setting up version control...'')])
          (console (final_world (setup_version_control env t w)))"
  by (auto simp: setup_version_control_def Let_def say_def prefix_def split: sum.splits prod.splits)

lemma console_install_dependencies:
  "prefix (console w) (console (final_world (install_dependencies env t w)))"
  by (auto simp: install_dependencies_def Let_def say_def prefix_def split: sum.splits prod.splits)

lemma console_report:
  "prefix (console w) (console (final_world (report env t w)))"
  by (auto simp: report_def Let_def say_def prefix_def split: sum.splits prod.splits)

lemma console_andthen:
  assumes "prefix c (console (final_world r))"
    and "\<And>w. prefix (console w) (console (final_world (f w)))"
  shows "prefix c (console (final_world (andthen r f)))"
proof (cases r)
  case (Inl x)
  then show ?thesis using assms(1) by (simp add: andthen_def)
next
  case (Inr w)
  then have "prefix c (console w)" using assms(1) by simp
  then show ?thesis
    using assms(2) [of w] Inr by (auto simp: andthen_def intro: prefix_order.trans)
qed

text \<open>
  Claim C6. Whatever the filesystem does during the customisation (every environment, hence
  every combination of failing sub-operations), the step reports success and hands over to
  the version-control step, which starts next.
\<close>

theorem customization_never_blocks:
  "\<exists>w'. customize env t w = Inr w' \<and>
        console w' = console w @ [Start (u ''Customizing application files...''),
                                  Succeed (u ''Application files customized.'')] \<and>
        andthen (customize env t w) (setup_version_control env t) =
          setup_version_control env t w' \<and>
        prefix (console w' @ [Start (u ''Setting up version control...'')])
               (console (final_world (setup_version_control env t w'))) \<and>
        (andthen (setup_directories env t w0) (setup_package env t name) = Inr w
           \<longrightarrow> prefix (console w' @ [Start (u ''Setting up version control...'')])
                      (console (final_world (after_clone env t name w0))))"
proof -
  obtain w' where w': "customize env t w = Inr w'"
    and c: "console w' = console w @ [Start (u ''Customizing application files...''),
                                     Succeed (u ''Application files customized.'')]"
    using customize_Inr by blast
  have vc: "prefix (console w' @ [Start (u ''Setting up version control...'')])
               (console (final_world (setup_version_control env t w')))"
    by (rule console_setup_version_control)
  have "prefix (console w' @ [Start (u ''Setting up version control...'')])
               (console (final_world (after_clone env t name w0)))"
    if "andthen (setup_directories env t w0) (setup_package env t name) = Inr w"
  proof -
    have "after_clone env t name w0 =
            andthen (andthen (setup_version_control env t w') (install_dependencies env t))
                    (report env t)"
      by (simp add: after_clone_def setup_steps_def that w' andthen_Inr)
    then show ?thesis
      by (simp add: console_andthen vc console_install_dependencies console_report)
  qed
  then show ?thesis
    using w' c vc by (simp add: andthen_Inr)
qed

lemma project_name_is_basename:
  "projectName env p = path_basename (targetDir env p)"
proof -
  obtain zs where z: "path_to_string (cwd env) = 47 # zs"
    by (cases "cwd env") auto
  have "resolve_join [47 # zs, 47 # zs, p] = resolve_join [47 # zs, p]"
    by (simp add: Let_def)
  then show ?thesis
    by (simp add: projectName_def targetDir_def path_resolve_def z del: resolve_join.simps)
qed

lemma map_of_rewritten:
  "map_of (AList.update (u ''description'') (JStr [])
               (AList.update (u ''version'') (JStr (u ''0.0.0''))
               (AList.delete (u ''author'')
               (AList.delete (u ''keywords'')
               (AList.update (u ''name'') (JStr name) props))))) =
   ((map_of props)(u ''name'' \<mapsto> JStr name, u ''keywords'' := None, u ''author'' := None,
       u ''version'' \<mapsto> JStr (u ''0.0.0''), u ''description'' \<mapsto> JStr []))"
  by (simp add: AList.update_conv' AList.delete_conv')

lemma lookup_update_same: "p \<noteq> [] \<Longrightarrow> lookup (AList.update p e fs) p = Some e"
  by (simp add: lookup_def AList.update_conv')

lemma lookup_update_other: "q \<noteq> p \<Longrightarrow> lookup (AList.update p e fs) q = lookup fs q"
  by (simp add: lookup_def AList.update_conv')

lemma fs_writeFile_Inr:
  "fs_writeFile fs p c = Inr fs' \<Longrightarrow> p \<noteq> [] \<and> fs' = AList.update p (File c) fs"
  by (auto simp: fs_writeFile_def split: if_splits option.splits entry.splits)

lemma guarded_Inr: "guarded env s r = Inr x \<Longrightarrow> r = Inr x"
  by (simp add: guarded_def split: if_splits)

lemma setup_package_Inr:
  assumes "setup_package env t name w = Inr w'"
  shows "\<exists>pkgJson pkgJson'. read_manifest env ReadPkg (files w) t = Inr pkgJson \<and>
           rewrite_manifest name pkgJson = Inr pkgJson' \<and>
           files w' = AList.update (pkgPath t) (File (JSON_stringify pkgJson')) (files w) \<and>
           console w' = console w @ [Start (u ''Setting up package.json...''),
                                     Succeed (u ''package.json set up.'')]"
  using assms
  by (auto simp: setup_package_def Let_def say_def split: sum.splits
           dest!: guarded_Inr fs_writeFile_Inr)

lemma read_manifest_Inr:
  "read_manifest env s fs t = Inr v \<Longrightarrow> lookup fs (pkgPath t) = Some (File d) \<Longrightarrow>
   JSON_parse env d = Some v"
  by (auto simp: read_manifest_def guarded_def fs_readFile_def split: if_splits option.splits)

lemma read_manifest_eq:
  "\<not> fault env s \<Longrightarrow> lookup fs (pkgPath t) = Some (File d) \<Longrightarrow>
   read_manifest env s fs t = (case JSON_parse env d of None \<Rightarrow> Inl SyntaxError | Some v \<Rightarrow> Inr v)"
  by (simp add: read_manifest_def guarded_def fs_readFile_def)

lemma serialize_as_written: "serialize indent (as_written v) = serialize indent v"
proof (induction v arbitrary: indent)
  case (JNum n)
  then show ?case by (simp add: u_def)
next
  case (JArr xs)
  have h: "map (\<lambda>x. serialize i (as_written x)) xs = map (serialize i) xs" for i
    by (rule map_cong) (simp_all add: JArr)
  show ?case by (simp add: comp_def h)
next
  case (JObj props)
  have h: "map (\<lambda>p. QuoteJSONString (fst p) @ u '': '' @ serialize i (as_written (snd p))) props =
           map (\<lambda>p. QuoteJSONString (fst p) @ u '': '' @ serialize i (snd p)) props" for i
    by (rule map_cong) (auto simp: JObj snds.simps)
  show ?case by (simp add: comp_def h)
qed simp_all

lemma stringify_as_written: "JSON_stringify (as_written v) = JSON_stringify v"
  by (simp add: JSON_stringify_def serialize_as_written)

lemma all_finite_as_written: "all_finite (as_written v)"
  by (induction v) (auto simp: list_all_iff snds.simps)

lemma as_written_finite: "all_finite v \<Longrightarrow> as_written v = v"
proof (induction v)
  case (JArr xs)
  then have "map as_written xs = xs"
    by (auto simp: list_all_iff intro: map_idI)
  then show ?case by simp
next
  case (JObj props)
  then have "map (\<lambda>p. (fst p, as_written (snd p))) props = props"
    by (auto simp: list_all_iff snds.simps intro!: map_idI)
  then show ?case by simp
qed simp_all

lemma map_of_as_written:
  "map_of (map (\<lambda>p. (fst p, f (snd p))) props) k = map_option f (map_of props k)"
  by (induction props) auto

text \<open>
  Claim C1 (amended). When the manifest of the template parses as a JSON object and the
  manifest step succeeds, the text written to package.json is the two-space serialisation of
  an object that holds finite numbers only, whose \<open>name\<close> is the basename of the target
  directory, whose \<open>version\<close> is \<open>0.0.0\<close>, whose \<open>description\<close> is empty, and which has neither
  \<open>keywords\<close> nor \<open>author\<close>. Every other key has the value the template gave it with \<open>null\<close> in
  the place of each number that is not finite: the very value when all its numbers are
  finite. No key is written twice when none is listed twice in the manifest parsed.
\<close>

theorem manifest_is_rewritten:
  assumes "lookup (files w) (pkgPath (targetDir env p)) = Some (File pkgData)"
    and "JSON_parse env pkgData = Some (JObj props)"
    and "setup_package env (targetDir env p) (projectName env p) w = Inr w'"
  shows "\<exists>props'.
           lookup (files w') (pkgPath (targetDir env p)) =
             Some (File (JSON_stringify (JObj props'))) \<and>
           all_finite (JObj props') \<and>
           map_of props' (u ''name'') = Some (JStr (path_basename (targetDir env p))) \<and>
           map_of props' (u ''version'') = Some (JStr (u ''0.0.0'')) \<and>
           map_of props' (u ''description'') = Some (JStr []) \<and>
           map_of props' (u ''keywords'') = None \<and>
           map_of props' (u ''author'') = None \<and>
           (\<forall>k. k \<notin> {u ''name'', u ''version'', u ''description'', u ''keywords'', u ''author''}
                \<longrightarrow> map_of props' k = map_option as_written (map_of props k)) \<and>
           (\<forall>k v. k \<notin> {u ''name'', u ''version'', u ''description'', u ''keywords'', u ''author''} \<and>
                  map_of props k = Some v \<and> all_finite v
                \<longrightarrow> map_of props' k = Some v) \<and>
           (distinct (map fst props) \<longrightarrow> distinct (map fst props'))"
proof -
  let ?name = "projectName env p"
  let ?props1 = "AList.update (u ''description'') (JStr [])
               (AList.update (u ''version'') (JStr (u ''0.0.0''))
               (AList.delete (u ''author'')
               (AList.delete (u ''keywords'')
               (AList.update (u ''name'') (JStr ?name) props))))"
  let ?props' = "map (\<lambda>p. (fst p, as_written (snd p))) ?props1"
  from setup_package_Inr [OF assms(3)] obtain pkgJson pkgJson'
    where r: "read_manifest env ReadPkg (files w) (targetDir env p) = Inr pkgJson"
      and rw: "rewrite_manifest ?name pkgJson = Inr pkgJson'"
      and f: "files w' = AList.update (pkgPath (targetDir env p))
                           (File (JSON_stringify pkgJson')) (files w)"
    by blast
  have "pkgJson = JObj props"
    using read_manifest_Inr [OF r assms(1)] assms(2) by simp
  with rw have v: "pkgJson' = JObj ?props1"
    by simp
  have w: "JSON_stringify pkgJson' = JSON_stringify (JObj ?props')"
    unfolding v using stringify_as_written [of "JObj ?props1"] by (simp only: as_written.simps)
  have "pkgPath (targetDir env p) \<noteq> []"
    by (simp add: pkgPath_def path_join_def)
  then have 1: "lookup (files w') (pkgPath (targetDir env p)) =
             Some (File (JSON_stringify (JObj ?props')))"
    unfolding f w by (rule lookup_update_same)
  have 0: "all_finite (JObj ?props')"
    using all_finite_as_written [of "JObj ?props1"] by (simp only: as_written.simps)
  have m: "map_of ?props' k = map_option as_written
       (((map_of props)(u ''name'' \<mapsto> JStr ?name, u ''keywords'' := None,
       u ''author'' := None, u ''version'' \<mapsto> JStr (u ''0.0.0''), u ''description'' \<mapsto> JStr [])) k)"
    for k
    by (simp only: map_of_as_written map_of_rewritten)
  have 2: "map_of ?props' (u ''name'') = Some (JStr (path_basename (targetDir env p)))"
    unfolding m by (simp add: u_def project_name_is_basename)
  have 3: "map_of ?props' (u ''version'') = Some (JStr (u ''0.0.0''))"
    unfolding m by (simp add: u_def)
  have 4: "map_of ?props' (u ''description'') = Some (JStr [])"
    unfolding m by simp
  have 5: "map_of ?props' (u ''keywords'') = None"
    unfolding m by (simp add: u_def)
  have 6: "map_of ?props' (u ''author'') = None"
    unfolding m by (simp add: u_def)
  have 7: "\<forall>k. k \<notin> {u ''name'', u ''version'', u ''description'', u ''keywords'', u ''author''}
                \<longrightarrow> map_of ?props' k = map_option as_written (map_of props k)"
    unfolding m by simp
  have 8: "\<forall>k v. k \<notin> {u ''name'', u ''version'', u ''description'', u ''keywords'', u ''author''} \<and>
                  map_of props k = Some v \<and> all_finite v
                \<longrightarrow> map_of ?props' k = Some v"
    using 7 by (simp add: as_written_finite)
  have e: "map fst ?props' = map fst ?props1"
    by (simp add: comp_def)
  have 9: "distinct (map fst props) \<longrightarrow> distinct (map fst ?props')"
    unfolding e by (intro impI distinct_update distinct_delete)
  from 1 0 2 3 4 5 6 7 8 9 show ?thesis by blast
qed

lemma sequence_all_Inr: "sequence (map (\<lambda>x. Inr (f x)) xs) = Inr (map f xs)"
  by (induction xs) simp_all

lemma sequence_map_cong:
  "(\<And>x. x \<in> set xs \<Longrightarrow> g x = Inr (f x)) \<Longrightarrow> sequence (map g xs) = Inr (map f xs)"
  by (induction xs) simp_all

lemma available_scripts_lines:
  assumes "get_scripts pkgJson = Inr (Some (JObj props))" and "props \<noteq> []"
    and "\<forall>e \<in> set props. \<exists>s. ToString (snd e) = Inr s"
  shows "available_scripts pkgJson =
           Inr (join_on 10 (map (\<lambda>e. u ''npm run '' @ fst e @ u ''  ->  '' @ command_text (snd e))
                                props))"
proof -
  have "sequence (map script_line props) =
          Inr (map (\<lambda>e. u ''npm run '' @ fst e @ u ''  ->  '' @ command_text (snd e)) props)"
    using assms(3) by (intro sequence_map_cong) (auto simp: script_line_def command_text_def)
  then show ?thesis
    using assms(1,2) by (simp add: available_scripts_def)
qed

lemma available_scripts_none:
  assumes "get_scripts pkgJson = Inr None \<or> get_scripts pkgJson = Inr (Some (JObj []))"
  shows "available_scripts pkgJson = Inr (u ''No npm scripts available.'')"
  using assms by (auto simp: available_scripts_def)

lemma report_console:
  "report env t w =
     Inr (w\<lparr>console := console w @
        (case (case read_manifest env RereadPkg (files w) t of
                 Inl err \<Rightarrow> Inl err | Inr pkgJson \<Rightarrow> available_scripts pkgJson) of
           Inr text \<Rightarrow> [Start (u ''Finalizing setup...''), Succeed (u ''Setup finalized.''),
                         ConsoleLog (u ''Project setup complete! Happy Coding!''), Boxed text]
         | Inl err \<Rightarrow> [Start (u ''Finalizing setup...''),
                        Warn (u ''Final setup encountered issues.''),
                        ConsoleLog (u ''Project setup complete! Happy Coding!''),
                        Boxed (u ''Unable to fetch npm scripts.'')])\<rparr>)"
  by (simp add: report_def Let_def say_def split: sum.splits)

lemma sequence_Inl:
  "\<exists>x \<in> set xs. \<exists>err. g x = Inl err \<Longrightarrow> \<exists>err. sequence (map g xs) = Inl err"
proof (induction xs)
  case Nil
  then show ?case by simp
next
  case (Cons a xs)
  show ?case
  proof (cases "g a")
    case (Inl err)
    then show ?thesis by simp
  next
    case (Inr y)
    with Cons.prems have "\<exists>x \<in> set xs. \<exists>err. g x = Inl err" by auto
    with Cons.IH obtain err where "sequence (map g xs) = Inl err" by blast
    with Inr show ?thesis by simp
  qed
qed

lemma available_scripts_throws:
  assumes "get_scripts pkgJson = Inr (Some (JObj props))"
    and "\<exists>e \<in> set props. \<exists>err. ToString (snd e) = Inl err"
  shows "\<exists>err. available_scripts pkgJson = Inl err"
proof -
  from assms(2) obtain e err where "e \<in> set props" and "ToString (snd e) = Inl err"
    by blast
  then have "e \<in> set props" and "script_line e = Inl err"
    by (simp_all add: script_line_def)
  then have "\<exists>e \<in> set props. \<exists>err. script_line e = Inl err"
    by blast
  then obtain err' where "sequence (map script_line props) = Inl err'"
    using sequence_Inl [of props script_line] by blast
  moreover have "props \<noteq> []"
    using assms(2) by auto
  ultimately show ?thesis
    using assms(1) by (simp add: available_scripts_def)
qed

lemma report_throws:
  assumes "read_manifest env RereadPkg (files w) t = Inr pkgJson"
    and "get_scripts pkgJson = Inr (Some (JObj props))"
    and "\<exists>e \<in> set props. \<exists>err. ToString (snd e) = Inl err"
  shows "console (final_world (report env t w)) = console w @
            [Start (u ''Finalizing setup...''), Warn (u ''Final setup encountered issues.''),
             ConsoleLog (u ''Project setup complete! Happy Coding!''),
             Boxed (u ''Unable to fetch npm scripts.'')]"
proof -
  obtain err where "available_scripts pkgJson = Inl err"
    using available_scripts_throws [OF assms(2,3)] by blast
  then show ?thesis
    using assms(1) by (simp add: report_console)
qed

text \<open>
  Claim C7 (amended). The report never exits and leaves the filesystem alone. When the
  manifest read back has a non-empty \<open>scripts\<close> object and every command converts to a string
  (every string does, to itself), it prints one line per entry; when a command does not
  convert, it prints the "unable to fetch" text; when \<open>scripts\<close> is missing or empty, it prints
  the "no scripts" text; when the manifest cannot be read or parsed, it prints the "unable to
  fetch" text.
\<close>

theorem report_never_exits:
  "(\<exists>w'. report env t w = Inr w' \<and> files w' = files w) \<and>
   exit_code (report env t w) = 0 \<and>
   (\<forall>name w0. setup_steps env t name w0 = Inr w
      \<longrightarrow> exit_code (after_clone env t name w0) = 0) \<and>
   (\<forall>pkgJson props.
      read_manifest env RereadPkg (files w) t = Inr pkgJson \<and>
      get_scripts pkgJson = Inr (Some (JObj props)) \<and> props \<noteq> [] \<and>
      (\<forall>e \<in> set props. \<exists>s. ToString (snd e) = Inr s)
      \<longrightarrow> console (final_world (report env t w)) = console w @
            [Start (u ''Finalizing setup...''), Succeed (u ''Setup finalized.''),
             ConsoleLog (u ''Project setup complete! Happy Coding!''),
             Boxed (join_on 10 (map (\<lambda>e. u ''npm run '' @ fst e @ u ''  ->  '' @
                                         command_text (snd e)) props))]) \<and>
   (\<forall>s. ToString (JStr s) = Inr s \<and> command_text (JStr s) = s) \<and>
   (\<forall>pkgJson props.
      read_manifest env RereadPkg (files w) t = Inr pkgJson \<and>
      get_scripts pkgJson = Inr (Some (JObj props)) \<and>
      (\<exists>e \<in> set props. \<exists>err. ToString (snd e) = Inl err)
      \<longrightarrow> console (final_world (report env t w)) = console w @
            [Start (u ''Finalizing setup...''), Warn (u ''Final setup encountered issues.''),
             ConsoleLog (u ''Project setup complete! Happy Coding!''),
             Boxed (u ''Unable to fetch npm scripts.'')]) \<and>
   (\<forall>pkgJson.
      read_manifest env RereadPkg (files w) t = Inr pkgJson \<and>
      (get_scripts pkgJson = Inr None \<or> get_scripts pkgJson = Inr (Some (JObj [])))
      \<longrightarrow> console (final_world (report env t w)) = console w @
            [Start (u ''Finalizing setup...''), Succeed (u ''Setup finalized.''),
             ConsoleLog (u ''Project setup complete! Happy Coding!''),
             Boxed (u ''No npm scripts available.'')]) \<and>
   ((\<exists>err. read_manifest env RereadPkg (files w) t = Inl err)
      \<longrightarrow> console (final_world (report env t w)) = console w @
            [Start (u ''Finalizing setup...''), Warn (u ''Final setup encountered issues.''),
             ConsoleLog (u ''Project setup complete! Happy Coding!''),
             Boxed (u ''Unable to fetch npm scripts.'')])"
proof (intro conjI allI impI)
  show "\<exists>w'. report env t w = Inr w' \<and> files w' = files w"
    by (simp add: report_console)
  show "exit_code (report env t w) = 0"
    by (simp add: report_console)
next
  fix name w0
  assume "setup_steps env t name w0 = Inr w"
  then show "exit_code (after_clone env t name w0) = 0"
    by (simp add: after_clone_def andthen_Inr report_console)
next
  fix pkgJson props
  assume "read_manifest env RereadPkg (files w) t = Inr pkgJson \<and>
      get_scripts pkgJson = Inr (Some (JObj props)) \<and> props \<noteq> [] \<and>
      (\<forall>e \<in> set props. \<exists>s. ToString (snd e) = Inr s)"
  then show "console (final_world (report env t w)) = console w @
            [Start (u ''Finalizing setup...''), Succeed (u ''Setup finalized.''),
             ConsoleLog (u ''Project setup complete! Happy Coding!''),
             Boxed (join_on 10 (map (\<lambda>e. u ''npm run '' @ fst e @ u ''  ->  '' @
                                         command_text (snd e)) props))]"
    by (simp add: report_console available_scripts_lines)
next
  fix s
  show "ToString (JStr s) = Inr s" "command_text (JStr s) = s"
    by (simp_all add: command_text_def)
next
  fix pkgJson props
  assume "read_manifest env RereadPkg (files w) t = Inr pkgJson \<and>
      get_scripts pkgJson = Inr (Some (JObj props)) \<and>
      (\<exists>e \<in> set props. \<exists>err. ToString (snd e) = Inl err)"
  then show "console (final_world (report env t w)) = console w @
            [Start (u ''Finalizing setup...''), Warn (u ''Final setup encountered issues.''),
             ConsoleLog (u ''Project setup complete! Happy Coding!''),
             Boxed (u ''Unable to fetch npm scripts.'')]"
    using report_throws by blast
next
  fix pkgJson
  assume "read_manifest env RereadPkg (files w) t = Inr pkgJson \<and>
      (get_scripts pkgJson = Inr None \<or> get_scripts pkgJson = Inr (Some (JObj [])))"
  then show "console (final_world (report env t w)) = console w @
            [Start (u ''Finalizing setup...''), Succeed (u ''Setup finalized.''),
             ConsoleLog (u ''Project setup complete! Happy Coding!''),
             Boxed (u ''No npm scripts available.'')]"
    by (auto simp: report_console available_scripts_none)
next
  assume "\<exists>err. read_manifest env RereadPkg (files w) t = Inl err"
  then show "console (final_world (report env t w)) = console w @
            [Start (u ''Finalizing setup...''), Warn (u ''Final setup encountered issues.''),
             ConsoleLog (u ''Project setup complete! Happy Coding!''),
             Boxed (u ''Unable to fetch npm scripts.'')]"
    by (auto simp: report_console)
qed

lemma absent_filter: "absent fs d \<Longrightarrow> absent (filter P fs) d"
  by (induction fs) (auto simp: absent_def)

lemma absent_rm_same: "absent (filter (\<lambda>(q, e). \<not> prefix d q) fs) d"
  by (induction fs) (auto simp: absent_def)

lemma absent_update: "absent fs d \<Longrightarrow> \<not> prefix d p \<Longrightarrow> absent (AList.update p e fs) d"
  by (induction fs) (auto simp: absent_def)

lemma absent_delete: "absent fs d \<Longrightarrow> absent (AList.delete p fs) d"
  by (simp add: AList.delete_eq absent_filter)

lemma fs_unlink_Inr: "fs_unlink fs p = Inr fs' \<Longrightarrow> fs' = AList.delete p fs"
  by (auto simp: fs_unlink_def split: option.splits entry.splits)

lemma fs_rm_Inr: "fs_rm fs p = Inr fs' \<Longrightarrow> fs' = filter (\<lambda>(q, e). \<not> prefix p q) fs"
  by (simp add: fs_rm_def)

lemma absent_attempt_write:
  "absent fs d \<Longrightarrow> \<not> prefix d p \<Longrightarrow> absent (attempt fs (guarded env s (fs_writeFile fs p c))) d"
  by (auto simp: attempt_def absent_update split: sum.splits dest!: guarded_Inr fs_writeFile_Inr)

lemma absent_attempt_unlink:
  "absent fs d \<Longrightarrow> absent (attempt fs (guarded env s (fs_unlink fs p))) d"
  by (auto simp: attempt_def absent_delete split: sum.splits dest!: guarded_Inr fs_unlink_Inr)

lemma absent_fold_unlink:
  "absent fs d \<Longrightarrow>
   absent (fold (\<lambda>file fs'. attempt fs' (guarded env (g file) (fs_unlink fs' (h file)))) names fs) d"
  by (induction names arbitrary: fs) (simp_all add: absent_attempt_unlink)

lemma not_below_docs:
  "\<not> prefix (docsDir t) (pkgPath t)" "\<not> prefix (docsDir t) (cssPath t)"
  "\<not> prefix (docsDir t) (layoutPath t)" "\<not> prefix (docsDir t) (pagePath t)"
  by (simp_all add: docsDir_def pkgPath_def cssPath_def layoutPath_def pagePath_def path_join_def
        u_def)

lemma not_below_blog:
  "\<not> prefix (blogDir t) (pkgPath t)" "\<not> prefix (blogDir t) (cssPath t)"
  "\<not> prefix (blogDir t) (layoutPath t)" "\<not> prefix (blogDir t) (pagePath t)"
  by (simp_all add: blogDir_def pkgPath_def cssPath_def layoutPath_def pagePath_def path_join_def
        u_def)

lemma absent_customize_files:
  assumes "absent fs d" and "\<not> prefix d (cssPath t)" and "\<not> prefix d (layoutPath t)"
    and "\<not> prefix d (pagePath t)"
  shows "absent (overwrite_page env t (update_layout env t
           (remove_components env t (replace_css env t fs)))) d"
proof -
  have 1: "absent (replace_css env t fs) d"
    using assms(1,2) by (simp add: replace_css_def absent_attempt_write)
  have 2: "absent (remove_components env t (replace_css env t fs)) d"
    unfolding remove_components_def using 1 by (rule absent_fold_unlink)
  have 3: "absent (update_layout env t (remove_components env t (replace_css env t fs))) d"
    using 2 assms(3) by (simp add: update_layout_def absent_attempt_write split: sum.splits)
  show ?thesis
    using 3 assms(4) by (simp add: overwrite_page_def absent_attempt_write)
qed

lemma customize_files:
  "customize env t w = Inr w' \<Longrightarrow>
   files w' = overwrite_page env t (update_layout env t
                (remove_components env t (replace_css env t (files w))))"
  by (auto simp: customize_def Let_def say_def)

lemma setup_directories_Inr:
  assumes "setup_directories env t w = Inr w'" and "\<not> fault env RmDocs" and "\<not> fault env RmBlog"
  shows "files w' = filter (\<lambda>(q, e). \<not> prefix (blogDir t) q)
                      (filter (\<lambda>(q, e). \<not> prefix (docsDir t) q) (files w))"
  using assms by (auto simp: setup_directories_def Let_def say_def guarded_def fs_rm_def)

lemma setup_version_control_Inr:
  assumes "setup_version_control env t w = Inr w'"
  shows "files w' = snd (git_init env t (filter (\<lambda>(q, e). \<not> prefix (gitDir t) q) (files w)))"
  using assms
  by (auto simp: setup_version_control_def Let_def say_def fs_rm_def
           split: sum.splits prod.splits if_splits dest!: guarded_Inr)

lemma install_dependencies_Inr:
  assumes "install_dependencies env t w = Inr w'"
  shows "files w' = snd (npm_install env t (files w))"
  using assms
  by (auto simp: install_dependencies_def Let_def say_def split: prod.splits if_splits)

lemma report_Inr: "report env t w = Inr w' \<Longrightarrow> files w' = files w"
  by (auto simp: report_console)


text \<open>The steps of \<open>setup_steps\<close>, one state after the other.\<close>

lemma setup_steps_Inr:
  assumes "setup_steps env t name w = Inr w'"
  obtains w2 w3 w4 w5 where "setup_directories env t w = Inr w2"
    and "setup_package env t name w2 = Inr w3" and "customize env t w3 = Inr w4"
    and "setup_version_control env t w4 = Inr w5" and "install_dependencies env t w5 = Inr w'"
  using assms unfolding setup_steps_def andthen_eq_Inr by blast

lemma main_Inr:
  assumes "main env (p # rest) fs = Inr w'"
  obtains w1 w6 where "clone env (targetDir env p) \<lparr>files = fs, console = []\<rparr> = Inr w1"
    and "setup_steps env (targetDir env p) (projectName env p) w1 = Inr w6"
    and "report env (targetDir env p) w6 = Inr w'"
proof -
  from assms obtain w0 where c: "check_target env (targetDir env p) \<lparr>files = fs, console = []\<rparr> = Inr w0"
    and f: "from_clone env (targetDir env p) (projectName env p) w0 = Inr w'"
    by (auto simp: main_def andthen_eq_Inr)
  from c have "w0 = \<lparr>files = fs, console = []\<rparr>" by (rule check_target_Inr)
  with f that show ?thesis
    unfolding from_clone_def after_clone_def andthen_eq_Inr by blast
qed

lemma setup_steps_absent:
  assumes steps: "setup_steps env t name w = Inr w'"
    and "\<not> fault env RmDocs" and "\<not> fault env RmBlog"
    and d: "d = docsDir t \<or> d = blogDir t"
    and gi: "\<forall>fs. absent fs d \<longrightarrow> absent (snd (git_init env t fs)) d"
    and ni: "\<forall>fs. absent fs d \<longrightarrow> absent (snd (npm_install env t fs)) d"
  shows "absent (files w') d"
proof -
  from steps obtain w2 w3 w4 w5 where s2: "setup_directories env t w = Inr w2"
    and s3: "setup_package env t name w2 = Inr w3" and s4: "customize env t w3 = Inr w4"
    and s5: "setup_version_control env t w4 = Inr w5"
    and s6: "install_dependencies env t w5 = Inr w'"
    by (rule setup_steps_Inr)
  have paths: "\<not> prefix d (pkgPath t)" "\<not> prefix d (cssPath t)" "\<not> prefix d (layoutPath t)"
    "\<not> prefix d (pagePath t)"
    using d not_below_docs not_below_blog by auto
  have a2: "absent (files w2) d"
  proof -
    have "absent (filter (\<lambda>(q, e). \<not> prefix (blogDir t) q)
                    (filter (\<lambda>(q, e). \<not> prefix (docsDir t) q) (files w))) d"
      using d by (auto intro: absent_filter absent_rm_same simp del: filter_filter)
    then show ?thesis
      by (simp only: setup_directories_Inr [OF s2 assms(2,3)])
  qed
  have a3: "absent (files w3) d"
    using setup_package_Inr [OF s3] a2 paths(1) by (auto simp: absent_update)
  have a4: "absent (files w4) d"
    unfolding customize_files [OF s4] using a3 paths(2-4) by (rule absent_customize_files)
  have a5: "absent (files w5) d"
    unfolding setup_version_control_Inr [OF s5] using a4 gi by (simp add: absent_filter)
  show ?thesis
    unfolding install_dependencies_Inr [OF s6] using a5 ni by simp
qed

text \<open>
  Claim C5. When a run completes, the two removals succeeded, and neither \<open>git init\<close> nor
  \<open>npm install\<close> creates them, the directories \<open>src/app/docs\<close> and \<open>src/app/blog\<close> and
  everything below them are absent at the end.
\<close>

theorem pruned_directories_stay_absent:
  assumes "main env (p # rest) fs = Inr w'"
    and "\<not> fault env RmDocs" and "\<not> fault env RmBlog"
    and "\<forall>d fs. d \<in> {docsDir (targetDir env p), blogDir (targetDir env p)} \<and> absent fs d
            \<longrightarrow> absent (snd (git_init env (targetDir env p) fs)) d \<and>
                absent (snd (npm_install env (targetDir env p) fs)) d"
  shows "absent (files w') (docsDir (targetDir env p)) \<and>
         absent (files w') (blogDir (targetDir env p))"
proof -
  from assms(1) obtain w1 w6
    where "setup_steps env (targetDir env p) (projectName env p) w1 = Inr w6"
      and "report env (targetDir env p) w6 = Inr w'"
    by (rule main_Inr)
  then show ?thesis
    using setup_steps_absent [of env "targetDir env p" "projectName env p" w1 w6] assms(2-4)
    by (simp add: report_Inr)
qed

lemma map_of_filter_keep: "P k \<Longrightarrow> map_of (filter (\<lambda>(q, e). P q) fs) k = map_of fs k"
  by (induction fs) auto

lemma lookup_filter_keep: "P k \<Longrightarrow> lookup (filter (\<lambda>(q, e). P q) fs) k = lookup fs k"
  by (simp add: lookup_def map_of_filter_keep)

lemma lookup_delete_other: "q \<noteq> p \<Longrightarrow> lookup (AList.delete p fs) q = lookup fs q"
  by (simp add: lookup_def AList.delete_conv')

lemma lookup_attempt_write:
  "q \<noteq> p \<Longrightarrow> lookup (attempt fs (guarded env s (fs_writeFile fs p c))) q = lookup fs q"
  by (auto simp: attempt_def lookup_update_other split: sum.splits
           dest!: guarded_Inr fs_writeFile_Inr)

lemma lookup_attempt_unlink:
  "q \<noteq> p \<Longrightarrow> lookup (attempt fs (guarded env s (fs_unlink fs p))) q = lookup fs q"
  by (auto simp: attempt_def lookup_delete_other split: sum.splits
           dest!: guarded_Inr fs_unlink_Inr)

lemma lookup_fold_unlink:
  "\<forall>file \<in> set names. q \<noteq> h file \<Longrightarrow>
   lookup (fold (\<lambda>file fs'. attempt fs' (guarded env (g file) (fs_unlink fs' (h file)))) names fs) q
     = lookup fs q"
  by (induction names arbitrary: fs) (simp_all add: lookup_attempt_unlink)

lemma pkgPath_apart:
  "pkgPath t \<noteq> cssPath t" "pkgPath t \<noteq> layoutPath t" "pkgPath t \<noteq> pagePath t"
  "\<forall>file \<in> set filesToRemove. pkgPath t \<noteq> path_join (componentsDir t) [file]"
  "\<not> prefix (gitDir t) (pkgPath t)" "\<not> prefix (docsDir t) (pkgPath t)"
  "\<not> prefix (blogDir t) (pkgPath t)"
  by (simp_all add: pkgPath_def cssPath_def layoutPath_def pagePath_def componentsDir_def
        gitDir_def docsDir_def blogDir_def path_join_def u_def)

lemma lookup_customize_files:
  "lookup (overwrite_page env t (update_layout env t
             (remove_components env t (replace_css env t fs)))) (pkgPath t) = lookup fs (pkgPath t)"
proof -
  have 1: "lookup (replace_css env t fs) (pkgPath t) = lookup fs (pkgPath t)"
    by (simp add: replace_css_def lookup_attempt_write pkgPath_apart)
  have 2: "lookup (remove_components env t fs') (pkgPath t) = lookup fs' (pkgPath t)" for fs'
    unfolding remove_components_def by (rule lookup_fold_unlink) (rule pkgPath_apart)
  have 3: "lookup (update_layout env t fs') (pkgPath t) = lookup fs' (pkgPath t)" for fs'
    by (simp add: update_layout_def lookup_attempt_write pkgPath_apart split: sum.splits)
  have 4: "lookup (overwrite_page env t fs') (pkgPath t) = lookup fs' (pkgPath t)" for fs'
    by (simp add: overwrite_page_def lookup_attempt_write pkgPath_apart)
  show ?thesis
    by (simp add: 1 2 3 4)
qed

lemma read_manifest_cong:
  "lookup fs (pkgPath t) = lookup fs' (pkgPath t) \<Longrightarrow>
   read_manifest env s fs t = read_manifest env s fs' t"
  by (simp add: read_manifest_def fs_readFile_def)

lemma setup_directories_lookup:
  assumes "setup_directories env t w = Inr w'"
  shows "lookup (files w') (pkgPath t) = lookup (files w) (pkgPath t)"
proof -
  have "lookup (filter (\<lambda>(q, e). \<not> prefix d q) fs) (pkgPath t) = lookup fs (pkgPath t)"
    if "\<not> prefix d (pkgPath t)" for d fs
    using that by (rule lookup_filter_keep)
  then show ?thesis
    using assms
    by (auto simp: setup_directories_def Let_def say_def fs_rm_def pkgPath_apart
             simp del: filter_filter split: sum.splits dest!: guarded_Inr)
qed

lemma get_scripts_rewrite:
  "rewrite_manifest name pkgJson = Inr v \<Longrightarrow> get_scripts v = get_scripts pkgJson"
proof (cases pkgJson)
  case (JObj props)
  assume "rewrite_manifest name pkgJson = Inr v"
  with JObj show ?thesis
    by (auto simp: u_def AList.update_conv' AList.delete_conv')
qed auto

text \<open>The manifest after the steps, when the external commands leave it alone.\<close>

lemma setup_steps_manifest:
  assumes steps: "setup_steps env t name w = Inr w'"
    and template: "lookup (files w) (pkgPath t) = Some (File pkgData)"
      "JSON_parse env pkgData = Some pkgJson"
    and gi: "\<forall>fs. lookup (snd (git_init env t fs)) (pkgPath t) = lookup fs (pkgPath t)"
    and ni: "\<forall>fs. lookup (snd (npm_install env t fs)) (pkgPath t) = lookup fs (pkgPath t)"
  shows "\<exists>v. rewrite_manifest name pkgJson = Inr v \<and>
             lookup (files w') (pkgPath t) = Some (File (JSON_stringify v))"
proof -
  from steps obtain w2 w3 w4 w5 where s2: "setup_directories env t w = Inr w2"
    and s3: "setup_package env t name w2 = Inr w3" and s4: "customize env t w3 = Inr w4"
    and s5: "setup_version_control env t w4 = Inr w5"
    and s6: "install_dependencies env t w5 = Inr w'"
    by (rule setup_steps_Inr)
  have l2: "lookup (files w2) (pkgPath t) = Some (File pkgData)"
    using template(1) setup_directories_lookup [OF s2] by simp
  from setup_package_Inr [OF s3] obtain pkgJson0 v
    where r: "read_manifest env ReadPkg (files w2) t = Inr pkgJson0"
      and v0: "rewrite_manifest name pkgJson0 = Inr v"
      and f3: "files w3 = AList.update (pkgPath t) (File (JSON_stringify v)) (files w2)"
    by blast
  have "pkgJson0 = pkgJson"
    using read_manifest_Inr [OF r l2] template(2) by simp
  with v0 have v: "rewrite_manifest name pkgJson = Inr v"
    by simp
  have "pkgPath t \<noteq> []"
    by (simp add: pkgPath_def path_join_def)
  then have l3: "lookup (files w3) (pkgPath t) = Some (File (JSON_stringify v))"
    by (simp add: f3 lookup_update_same)
  have l4: "lookup (files w4) (pkgPath t) = Some (File (JSON_stringify v))"
    by (simp add: customize_files [OF s4] lookup_customize_files l3)
  have "lookup (filter (\<lambda>(q, e). \<not> prefix (gitDir t) q) (files w4)) (pkgPath t) =
          lookup (files w4) (pkgPath t)"
    by (rule lookup_filter_keep) (rule pkgPath_apart)
  then have l5: "lookup (files w5) (pkgPath t) = Some (File (JSON_stringify v))"
    by (simp add: setup_version_control_Inr [OF s5] gi l4)
  have l6: "lookup (files w') (pkgPath t) = Some (File (JSON_stringify v))"
    by (simp add: install_dependencies_Inr [OF s6] ni l5)
  with v show ?thesis
    by blast
qed

lemma get_scripts_as_written:
  "get_scripts (JObj props) = Inr (Some scripts) \<Longrightarrow> rewrite_manifest name (JObj props) = Inr v \<Longrightarrow>
   get_scripts (as_written v) = Inr (Some (as_written scripts))"
  using get_scripts_rewrite [of name "JObj props" v] by (auto simp: map_of_as_written)

text \<open>
  Claim C4 (amended). When the steps after the clone succeed and the external commands leave
  package.json alone, the file holds at the end the serialisation of a manifest with the
  \<open>scripts\<close> of the template. When moreover \<open>JSON.parse\<close> reads the rewritten manifest back
  from its text (as the value the text stands for), the manifest read in the report has the
  \<open>scripts\<close> of the template with \<open>null\<close> in the place of each number that is not finite: the
  very \<open>scripts\<close> of the template when all their numbers are finite.
\<close>

theorem scripts_are_never_changed:
  assumes steps: "setup_steps env t name w = Inr w'"
    and template: "lookup (files w) (pkgPath t) = Some (File pkgData)"
      "JSON_parse env pkgData = Some (JObj props)"
    and present: "map_of props (u ''scripts'') = Some scripts"
    and gi: "\<forall>fs. lookup (snd (git_init env t fs)) (pkgPath t) = lookup fs (pkgPath t)"
    and ni: "\<forall>fs. lookup (snd (npm_install env t fs)) (pkgPath t) = lookup fs (pkgPath t)"
    and readback: "\<forall>v. rewrite_manifest name (JObj props) = Inr v
                      \<longrightarrow> JSON_parse env (JSON_stringify v) = Some (as_written v)"
    and "\<not> fault env RereadPkg"
  shows "(\<exists>v. lookup (files w') (pkgPath t) = Some (File (JSON_stringify v)) \<and>
              get_scripts v = Inr (Some scripts)) \<and>
         (\<exists>pkgJson'. read_manifest env RereadPkg (files w') t = Inr pkgJson' \<and>
            get_scripts pkgJson' = Inr (Some (as_written scripts)) \<and>
            (all_finite scripts \<longrightarrow> get_scripts pkgJson' = Inr (Some scripts)))"
proof -
  from setup_steps_manifest [OF steps template gi ni] obtain v
    where v: "rewrite_manifest name (JObj props) = Inr v"
      and l: "lookup (files w') (pkgPath t) = Some (File (JSON_stringify v))"
    by blast
  have "get_scripts v = Inr (Some scripts)"
    using get_scripts_rewrite [OF v] present by simp
  with l have first: "\<exists>v. lookup (files w') (pkgPath t) = Some (File (JSON_stringify v)) \<and>
              get_scripts v = Inr (Some scripts)"
    by blast
  have "JSON_parse env (JSON_stringify v) = Some (as_written v)"
    using readback v by blast
  then have r: "read_manifest env RereadPkg (files w') t = Inr (as_written v)"
    using assms(8) l by (simp add: read_manifest_eq)
  have "get_scripts (JObj props) = Inr (Some scripts)"
    using present by simp
  then have g: "get_scripts (as_written v) = Inr (Some (as_written scripts))"
    using v by (rule get_scripts_as_written)
  from r g have "\<exists>pkgJson'. read_manifest env RereadPkg (files w') t = Inr pkgJson' \<and>
            get_scripts pkgJson' = Inr (Some (as_written scripts)) \<and>
            (all_finite scripts \<longrightarrow> get_scripts pkgJson' = Inr (Some scripts))"
    by (auto simp: as_written_finite)
  with first show ?thesis
    by blast
qed


section \<open>Runs that complete, and the example runs\<close>

lemma setup_directories_total: "\<exists>w'. setup_directories env t w = Inr w'"
  by (simp add: setup_directories_def Let_def split: sum.splits)

lemma setup_directories_keeps:
  assumes "setup_directories env t w = Inr w'"
    and "\<not> prefix (docsDir t) q" and "\<not> prefix (blogDir t) q"
  shows "lookup (files w') q = lookup (files w) q"
proof -
  have "lookup (filter (\<lambda>(q, e). \<not> prefix d q) fs) q = lookup fs q"
    if "\<not> prefix d q" for d fs
    using that by (rule lookup_filter_keep)
  then show ?thesis
    using assms
    by (auto simp: setup_directories_def Let_def say_def fs_rm_def
             simp del: filter_filter split: sum.splits dest!: guarded_Inr)
qed

lemma setup_package_succeeds:
  assumes "\<not> fault env ReadPkg" and "\<not> fault env WritePkg"
    and "lookup (files w) (pkgPath t) = Some (File text)"
    and "JSON_parse env text = Some (JObj props)"
    and "lookup (files w) t = Some Dir"
  shows "\<exists>w'. setup_package env t name w = Inr w'"
  using assms
  by (simp add: setup_package_def Let_def say_def read_manifest_def guarded_def fs_readFile_def
        fs_writeFile_def pkgPath_def path_join_def)

lemma setup_version_control_succeeds:
  assumes "\<not> fault env RmGit" and "\<forall>fs. fst (git_init env t fs)"
  shows "\<exists>w'. setup_version_control env t w = Inr w'"
proof -
  let ?r = "git_init env t (filter (\<lambda>(q, e). \<not> prefix (gitDir t) q) (files w))"
  have "fst ?r"
    using assms(2) by blast
  then show ?thesis
    using assms(1)
    by (cases ?r) (simp add: setup_version_control_def Let_def guarded_def fs_rm_def files_say)
qed

lemma install_dependencies_succeeds:
  assumes "\<forall>fs. fst (npm_install env t fs)"
  shows "\<exists>w'. install_dependencies env t w = Inr w'"
proof -
  have "fst (npm_install env t (files w))"
    using assms by blast
  then show ?thesis
    by (cases "npm_install env t (files w)") (simp add: install_dependencies_def Let_def files_say)
qed

lemma target_apart:
  "\<not> prefix (docsDir t) t" "\<not> prefix (blogDir t) t"
  by (simp_all add: docsDir_def blogDir_def path_join_def)

lemma setup_steps_complete:
  assumes "\<not> fault env ReadPkg" and "\<not> fault env WritePkg" and "\<not> fault env RmGit"
    and "lookup (files w) (pkgPath t) = Some (File text)"
    and "JSON_parse env text = Some (JObj props)"
    and "lookup (files w) t = Some Dir"
    and "\<forall>fs. fst (git_init env t fs)" and "\<forall>fs. fst (npm_install env t fs)"
  shows "\<exists>w'. setup_steps env t name w = Inr w'"
proof -
  obtain w2 where s2: "setup_directories env t w = Inr w2"
    using setup_directories_total by blast
  have "lookup (files w2) (pkgPath t) = Some (File text)" "lookup (files w2) t = Some Dir"
    using setup_directories_keeps [OF s2] assms(4,6) pkgPath_apart(6,7) target_apart by auto
  then obtain w3 where s3: "setup_package env t name w2 = Inr w3"
    using setup_package_succeeds [OF assms(1,2) _ assms(5)] by blast
  obtain w4 where s4: "customize env t w3 = Inr w4"
    using customize_Inr by blast
  obtain w5 where s5: "setup_version_control env t w4 = Inr w5"
    using setup_version_control_succeeds [OF assms(3,7)] by blast
  obtain w6 where s6: "install_dependencies env t w5 = Inr w6"
    using install_dependencies_succeeds [OF assms(8)] by blast
  show ?thesis
    by (simp add: setup_steps_def s2 s3 s4 s5 s6 andthen_Inr)
qed

lemma main_completes_after_check:
  assumes "check_target env (targetDir env p) \<lparr>files = fs, console = []\<rparr> =
             Inr \<lparr>files = fs, console = []\<rparr>"
    and "\<not> fault env ReadPkg" and "\<not> fault env WritePkg" and "\<not> fault env RmGit"
    and "git_clone env (targetDir env p) fs = (True, fs')"
    and "lookup fs' (pkgPath (targetDir env p)) = Some (File text)"
    and "JSON_parse env text = Some (JObj props)"
    and "lookup fs' (targetDir env p) = Some Dir"
    and "\<forall>fs. fst (git_init env (targetDir env p) fs)"
    and "\<forall>fs. fst (npm_install env (targetDir env p) fs)"
  shows "\<exists>w'. main env (p # rest) fs = Inr w'"
proof -
  let ?t = "targetDir env p"
  let ?w1 = "say (Succeed (u ''Repository cloned.''))
               ((say (Start (u ''Setting up project...'')) \<lparr>files = fs, console = []\<rparr>)
                  \<lparr>files := fs'\<rparr>)"
  have cl: "clone env ?t \<lparr>files = fs, console = []\<rparr> = Inr ?w1"
    using assms(5) by (simp add: clone_def Let_def say_def)
  have f: "files ?w1 = fs'"
    by (simp add: say_def)
  obtain w6 where s: "setup_steps env ?t (projectName env p) ?w1 = Inr w6"
    using setup_steps_complete [of env "?w1" "?t" "text" props "projectName env p"] assms(2-10) f
    by auto
  obtain w' where r: "report env ?t w6 = Inr w'"
    by (simp add: report_console)
  show ?thesis
    by (simp add: main_def assms(1) cl s r from_clone_def after_clone_def andthen_Inr)
qed

lemma main_completes:
  assumes "lookup fs (targetDir env p) = None" and "\<forall>s. \<not> fault env s"
    and "git_clone env (targetDir env p) fs = (True, fs')"
    and "lookup fs' (pkgPath (targetDir env p)) = Some (File text)"
    and "JSON_parse env text = Some (JObj props)"
    and "lookup fs' (targetDir env p) = Some Dir"
    and "\<forall>fs. fst (git_init env (targetDir env p) fs)"
    and "\<forall>fs. fst (npm_install env (targetDir env p) fs)"
  shows "\<exists>w'. main env (p # rest) fs = Inr w'"
proof -
  have "check_target env (targetDir env p) \<lparr>files = fs, console = []\<rparr> =
          Inr \<lparr>files = fs, console = []\<rparr>"
    using assms(1) by (simp add: check_target_def guarded_def fs_access_def)
  then show ?thesis
    using assms(2-8) by (intro main_completes_after_check) auto
qed

lemmas demo_paths = docsDir_def blogDir_def pkgPath_def cssPath_def componentsDir_def
  layoutPath_def pagePath_def gitDir_def path_join_def u_eq_iff u_Nil

lemma demo_clone:
  "git_clone demo_env [u ''home'', u ''my-app''] empty_fs = (True, files cloned)"
  by (simp add: demo_env_def cloned_def)

lemma demo_cloned_manifest:
  "lookup (files cloned) (pkgPath [u ''home'', u ''my-app'']) = Some (File (u ''template manifest''))"
  by (simp add: cloned_def empty_fs_def demo_template_def lookup_def demo_paths)

lemma demo_cloned_target: "lookup (files cloned) [u ''home'', u ''my-app''] = Some Dir"
  by (simp add: cloned_def empty_fs_def demo_template_def lookup_def demo_paths)

lemma demo_cloned_docs:
  "lookup (files cloned) (docsDir [u ''home'', u ''my-app'']) = Some Dir"
  by (simp add: cloned_def empty_fs_def demo_template_def lookup_def demo_paths)

lemma demo_parse:
  "JSON_parse demo_env (u ''template manifest'') = Some demo_manifest"
  "JSON_parse demo_env (u ''rewritten manifest'') = Some demo_rewritten"
  by (simp_all add: demo_env_def u_eq_iff)

lemma demo_rewrite: "rewrite_manifest (u ''my-app'') demo_manifest = Inr demo_rewritten"
  by (simp add: demo_manifest_def demo_rewritten_def AList.delete_eq u_eq_iff)

lemmas json_eval = JSON_stringify_def QuoteJSONString_def quote_unit_def not_finite_def u_def

lemma demo_serialised: "JSON_stringify demo_rewritten = demo_written"
  by (simp add: demo_rewritten_def demo_written_def json_eval)

lemma demo_readback: "JSON_parse demo_env (JSON_stringify demo_rewritten) = Some demo_rewritten"
  by (simp add: demo_env_def demo_serialised) (simp add: demo_written_def u_def)

lemma demo_frames:
  "\<forall>fs. lookup (snd (git_init demo_env [u ''home'', u ''my-app''] fs))
           (pkgPath [u ''home'', u ''my-app'']) = lookup fs (pkgPath [u ''home'', u ''my-app''])"
  "\<forall>fs. lookup (snd (npm_install demo_env [u ''home'', u ''my-app''] fs))
           (pkgPath [u ''home'', u ''my-app'']) = lookup fs (pkgPath [u ''home'', u ''my-app''])"
  by (simp_all add: demo_env_def lookup_update_other pkgPath_def path_join_def u_eq_iff)

lemma lossy_facts:
  "\<not> fault lossy_env s" "fst (git_init lossy_env t fs)" "fst (npm_install lossy_env t fs)"
  "git_init lossy_env = git_init demo_env" "npm_install lossy_env = npm_install demo_env"
  "JSON_parse lossy_env lossy_text = Some lossy_manifest"
  by (simp_all add: lossy_env_def demo_env_def)

lemma lossy_cloned_files:
  "lookup (files lossy_cloned) (pkgPath [u ''home'', u ''my-app'']) = Some (File lossy_text)"
  "lookup (files lossy_cloned) [u ''home'', u ''my-app''] = Some Dir"
  by (simp_all add: lossy_cloned_def lookup_def pkgPath_def path_join_def u_eq_iff)

lemma lossy_rewrite:
  "rewrite_manifest (u ''my-app'') lossy_manifest =
     Inr (JObj [(u ''big'', JNum (u ''Infinity'')),
                (u ''scripts'', JObj [(u ''s'', JNum (u ''Infinity''))]),
                (u ''name'', JStr (u ''my-app'')), (u ''version'', JStr (u ''0.0.0'')),
                (u ''description'', JStr [])])"
  by (simp add: lossy_manifest_def AList.delete_eq u_eq_iff)

lemma lossy_serialised:
  "JSON_stringify (JObj [(u ''big'', JNum (u ''Infinity'')),
                (u ''scripts'', JObj [(u ''s'', JNum (u ''Infinity''))]),
                (u ''name'', JStr (u ''my-app'')), (u ''version'', JStr (u ''0.0.0'')),
                (u ''description'', JStr [])]) = lossy_written"
  by (simp add: lossy_written_def json_eval)

lemma lossy_readback_parse: "JSON_parse lossy_env lossy_written = Some lossy_readback"
  by (simp add: lossy_env_def lossy_written_def lossy_text_def u_def)

lemma demo_collaborators:
  "fst (git_init demo_env t fs)" "fst (npm_install demo_env t fs)" "\<not> fault demo_env s"
  "snd (git_init demo_env t fs) = AList.update (t @ [u ''.git'']) Dir fs"
  "snd (npm_install demo_env t fs) = AList.update (t @ [u ''node_modules'']) Dir fs"
  by (simp_all add: demo_env_def)

theorem pruned_directories_stay_absent_witness:
  "lookup (files cloned) (docsDir [u ''home'', u ''my-app'']) = Some Dir \<and>
   (\<exists>w'. main demo_env [u ''my-app''] empty_fs = Inr w' \<and>
      absent (files w') (docsDir [u ''home'', u ''my-app'']) \<and>
      absent (files w') (blogDir [u ''home'', u ''my-app'']))"
proof -
  let ?t = "targetDir demo_env (u ''my-app'')"
  have t: "?t = [u ''home'', u ''my-app'']"
    by (simp add: targetDir_demo cwd_demo)
  have "lookup empty_fs ?t = None"
    by (simp add: t empty_fs_def lookup_def u_eq_iff)
  then obtain w' where w': "main demo_env [u ''my-app''] empty_fs = Inr w'"
    using main_completes [of empty_fs demo_env "u ''my-app''" "files cloned"
        "u ''template manifest''" _ "[]"]
      demo_clone demo_cloned_manifest demo_cloned_target demo_parse(1) demo_collaborators(1-3)
    unfolding t demo_manifest_def by blast
  have frames: "\<forall>d fs. d \<in> {docsDir ?t, blogDir ?t} \<and> absent fs d
            \<longrightarrow> absent (snd (git_init demo_env ?t fs)) d \<and>
                absent (snd (npm_install demo_env ?t fs)) d"
    by (auto simp: demo_collaborators intro!: absent_update simp: demo_paths)
  have "absent (files w') (docsDir ?t) \<and> absent (files w') (blogDir ?t)"
    using pruned_directories_stay_absent [OF w' _ _ frames] demo_collaborators(3) by blast
  then show ?thesis
    using w' demo_cloned_docs by (auto simp: t)
qed

lemma demo_scripts:
  "get_scripts demo_manifest =
     Inr (Some (JObj [(u ''start'', JStr (u ''peachy dev'')),
                      (u ''build'', JStr (u ''peachy build''))]))"
  "get_scripts demo_rewritten =
     Inr (Some (JObj [(u ''start'', JStr (u ''peachy dev'')),
                      (u ''build'', JStr (u ''peachy build''))]))"
  by (simp_all add: demo_manifest_def demo_rewritten_def u_eq_iff)

theorem scripts_are_never_changed_witness:
  "\<exists>w' pkgJson'.
     setup_steps demo_env [u ''home'', u ''my-app''] (u ''my-app'') cloned = Inr w' \<and>
     read_manifest demo_env RereadPkg (files w') [u ''home'', u ''my-app''] = Inr pkgJson' \<and>
     get_scripts pkgJson' =
       Inr (Some (JObj [(u ''start'', JStr (u ''peachy dev'')),
                        (u ''build'', JStr (u ''peachy build''))]))"
proof -
  let ?t = "[u ''home'', u ''my-app'']"
  let ?props = "[(u ''name'', JStr (u ''peachy'')), (u ''version'', JStr (u ''1.2.3'')),
     (u ''keywords'', JArr [JStr (u ''framework'')]), (u ''author'', JStr (u ''Sid'')),
     (u ''scripts'', JObj [(u ''start'', JStr (u ''peachy dev'')),
                           (u ''build'', JStr (u ''peachy build''))])]"
  let ?scripts = "JObj [(u ''start'', JStr (u ''peachy dev'')),
                        (u ''build'', JStr (u ''peachy build''))]"
  have parse: "JSON_parse demo_env (u ''template manifest'') = Some (JObj ?props)"
    using demo_parse(1) by (simp add: demo_manifest_def)
  obtain w' where w': "setup_steps demo_env ?t (u ''my-app'') cloned = Inr w'"
    using setup_steps_complete [of demo_env cloned ?t "u ''template manifest''" _ "u ''my-app''"]
      demo_cloned_manifest demo_cloned_target parse demo_collaborators(1-3)
    by blast
  have present: "map_of ?props (u ''scripts'') = Some ?scripts"
    by (simp add: u_eq_iff)
  have fin: "all_finite ?scripts"
    by simp
  have readback: "\<forall>v. rewrite_manifest (u ''my-app'') (JObj ?props) = Inr v
                      \<longrightarrow> JSON_parse demo_env (JSON_stringify v) = Some (as_written v)"
    using demo_rewrite demo_readback as_written_finite [of demo_rewritten]
    by (simp add: demo_manifest_def) (simp add: demo_rewritten_def)
  from scripts_are_never_changed [OF w' demo_cloned_manifest parse present demo_frames readback
      demo_collaborators(3)] fin
  show ?thesis
    using w' by blast
qed

text \<open>
  A template whose manifest holds \<open>1e999\<close>: \<open>JSON.parse\<close> gives \<open>Infinity\<close>, the rewritten
  manifest is written with \<open>null\<close> in its place, and the report reads \<open>null\<close> where the
  template had \<open>Infinity\<close>.
\<close>

theorem scripts_counterexample:
  "lookup (files lossy_cloned) (pkgPath [u ''home'', u ''my-app'']) = Some (File lossy_text) \<and>
   JSON_parse lossy_env lossy_text = Some lossy_manifest \<and>
   get_scripts lossy_manifest = Inr (Some (JObj [(u ''s'', JNum (u ''Infinity''))])) \<and>
   (\<exists>w'. setup_steps lossy_env [u ''home'', u ''my-app''] (u ''my-app'') lossy_cloned = Inr w' \<and>
      lookup (files w') (pkgPath [u ''home'', u ''my-app'']) = Some (File lossy_written) \<and>
      read_manifest lossy_env RereadPkg (files w') [u ''home'', u ''my-app''] =
        Inr lossy_readback) \<and>
   get_scripts lossy_readback = Inr (Some (JObj [(u ''s'', JNull)]))"
proof -
  let ?t = "[u ''home'', u ''my-app'']"
  have parse: "JSON_parse lossy_env lossy_text = Some lossy_manifest"
    by (rule lossy_facts)
  obtain w' where w': "setup_steps lossy_env ?t (u ''my-app'') lossy_cloned = Inr w'"
    using setup_steps_complete [of lossy_env lossy_cloned ?t lossy_text _ "u ''my-app''"]
      lossy_cloned_files parse lossy_facts(1-3)
    unfolding lossy_manifest_def by blast
  have l: "lookup (files w') (pkgPath ?t) = Some (File lossy_written)"
    using setup_steps_manifest [OF w' lossy_cloned_files(1) parse] demo_frames
    by (auto simp: lossy_facts(4,5) lossy_rewrite lossy_serialised)
  have r: "read_manifest lossy_env RereadPkg (files w') ?t = Inr lossy_readback"
    using l by (simp add: read_manifest_eq lossy_facts(1) lossy_readback_parse)
  have "get_scripts lossy_manifest = Inr (Some (JObj [(u ''s'', JNum (u ''Infinity''))]))"
    "get_scripts lossy_readback = Inr (Some (JObj [(u ''s'', JNull)]))"
    by (simp_all add: lossy_manifest_def lossy_readback_def u_eq_iff)
  with w' l r parse lossy_cloned_files(1) show ?thesis
    by blast
qed

theorem manifest_is_rewritten_witness:
  "\<exists>w' props'.
     setup_package demo_env [u ''home'', u ''my-app''] (u ''my-app'') cloned = Inr w' \<and>
     lookup (files w') (pkgPath [u ''home'', u ''my-app'']) =
       Some (File (JSON_stringify (JObj props'))) \<and>
     lookup (files w') (pkgPath [u ''home'', u ''my-app'']) = Some (File demo_written) \<and>
     map_of props' (u ''name'') = Some (JStr (u ''my-app'')) \<and>
     map_of props' (u ''version'') = Some (JStr (u ''0.0.0'')) \<and>
     map_of props' (u ''description'') = Some (JStr []) \<and>
     map_of props' (u ''keywords'') = None \<and>
     map_of props' (u ''author'') = None \<and>
     map_of props' (u ''scripts'') =
       Some (JObj [(u ''start'', JStr (u ''peachy dev'')),
                   (u ''build'', JStr (u ''peachy build''))])"
proof -
  let ?t = "[u ''home'', u ''my-app'']"
  let ?props = "[(u ''name'', JStr (u ''peachy'')), (u ''version'', JStr (u ''1.2.3'')),
     (u ''keywords'', JArr [JStr (u ''framework'')]), (u ''author'', JStr (u ''Sid'')),
     (u ''scripts'', JObj [(u ''start'', JStr (u ''peachy dev'')),
                           (u ''build'', JStr (u ''peachy build''))])]"
  have t: "targetDir demo_env (u ''my-app'') = ?t"
    and n: "projectName demo_env (u ''my-app'') = u ''my-app''"
    by (simp_all add: targetDir_demo projectName_demo cwd_demo)
  have parse: "JSON_parse demo_env (u ''template manifest'') = Some (JObj ?props)"
    using demo_parse(1) by (simp add: demo_manifest_def)
  obtain w' where w': "setup_package demo_env ?t (u ''my-app'') cloned = Inr w'"
    using setup_package_succeeds [of demo_env cloned ?t "u ''template manifest''" _ "u ''my-app''"]
      demo_cloned_manifest demo_cloned_target parse demo_collaborators(3)
    by blast
  have l: "lookup (files cloned) (pkgPath (targetDir demo_env (u ''my-app''))) =
             Some (File (u ''template manifest''))"
    using demo_cloned_manifest by (simp add: t)
  have w'': "setup_package demo_env (targetDir demo_env (u ''my-app''))
                (projectName demo_env (u ''my-app'')) cloned = Inr w'"
    using w' by (simp add: t n)
  from manifest_is_rewritten [OF l parse w''] obtain props' where
    p: "lookup (files w') (pkgPath ?t) = Some (File (JSON_stringify (JObj props')))"
       "map_of props' (u ''name'') = Some (JStr (path_basename ?t))"
       "map_of props' (u ''version'') = Some (JStr (u ''0.0.0''))"
       "map_of props' (u ''description'') = Some (JStr [])"
       "map_of props' (u ''keywords'') = None"
       "map_of props' (u ''author'') = None"
       and other: "\<forall>k v. k \<notin> {u ''name'', u ''version'', u ''description'', u ''keywords'',
                       u ''author''} \<and> map_of ?props k = Some v \<and> all_finite v
                     \<longrightarrow> map_of props' k = Some v"
    unfolding t by blast
  from other have s: "map_of props' (u ''scripts'') =
       Some (JObj [(u ''start'', JStr (u ''peachy dev'')),
                   (u ''build'', JStr (u ''peachy build''))])"
    by (simp add: u_eq_iff)
  from setup_package_Inr [OF w'] obtain pkgJson pkgJson'
    where r: "read_manifest demo_env ReadPkg (files cloned) ?t = Inr pkgJson"
      and rw: "rewrite_manifest (u ''my-app'') pkgJson = Inr pkgJson'"
      and f: "files w' = AList.update (pkgPath ?t) (File (JSON_stringify pkgJson')) (files cloned)"
    by blast
  have "pkgJson = demo_manifest"
    using read_manifest_Inr [OF r demo_cloned_manifest] demo_parse(1) by simp
  with rw have "pkgJson' = demo_rewritten"
    by (simp add: demo_rewrite)
  then have d: "lookup (files w') (pkgPath ?t) = Some (File demo_written)"
    by (simp add: f demo_serialised lookup_update_same pkgPath_def path_join_def)
  from w' p s d show ?thesis
    by (auto simp: path_basename_def)
qed

text \<open>
  A template whose manifest holds \<open>1e999\<close> under the key \<open>big\<close>: the value parsed is
  \<open>Infinity\<close>, the text written has \<open>null\<close> for it, and so has the manifest read back.
\<close>

theorem manifest_counterexample:
  "lookup (files lossy_cloned) (pkgPath [u ''home'', u ''my-app'']) = Some (File lossy_text) \<and>
   JSON_parse lossy_env lossy_text = Some lossy_manifest \<and>
   map_of (Object_entries lossy_manifest) (u ''big'') = Some (JNum (u ''Infinity'')) \<and>
   (\<exists>w'. setup_package lossy_env [u ''home'', u ''my-app''] (u ''my-app'') lossy_cloned = Inr w' \<and>
      lookup (files w') (pkgPath [u ''home'', u ''my-app'']) = Some (File lossy_written)) \<and>
   JSON_parse lossy_env lossy_written = Some lossy_readback \<and>
   map_of (Object_entries lossy_readback) (u ''big'') = Some JNull"
proof -
  let ?t = "[u ''home'', u ''my-app'']"
  have parse: "JSON_parse lossy_env lossy_text = Some lossy_manifest"
    by (rule lossy_facts)
  obtain w' where w': "setup_package lossy_env ?t (u ''my-app'') lossy_cloned = Inr w'"
    using setup_package_succeeds [of lossy_env lossy_cloned ?t lossy_text _ "u ''my-app''"]
      lossy_cloned_files parse lossy_facts(1)
    unfolding lossy_manifest_def by blast
  from setup_package_Inr [OF w'] obtain pkgJson pkgJson'
    where r: "read_manifest lossy_env ReadPkg (files lossy_cloned) ?t = Inr pkgJson"
      and rw: "rewrite_manifest (u ''my-app'') pkgJson = Inr pkgJson'"
      and f: "files w' =
                AList.update (pkgPath ?t) (File (JSON_stringify pkgJson')) (files lossy_cloned)"
    by blast
  have "pkgJson = lossy_manifest"
    using read_manifest_Inr [OF r lossy_cloned_files(1)] parse by simp
  with rw have "JSON_stringify pkgJson' = lossy_written"
    using lossy_serialised by (simp add: lossy_rewrite)
  then have l: "lookup (files w') (pkgPath ?t) = Some (File lossy_written)"
    by (simp add: f lookup_update_same pkgPath_def path_join_def)
  have "map_of (Object_entries lossy_manifest) (u ''big'') = Some (JNum (u ''Infinity''))"
    "map_of (Object_entries lossy_readback) (u ''big'') = Some JNull"
    by (simp_all add: lossy_manifest_def lossy_readback_def)
  with w' l parse lossy_cloned_files(1) lossy_readback_parse show ?thesis
    by blast
qed




lemma blocked_facts:
  "\<not> fault blocked_env ReadPkg" "\<not> fault blocked_env WritePkg"
  "fault blocked_env WriteCss" "fault blocked_env ReadLayout" "fault blocked_env WritePage"
  "fault blocked_env (UnlinkComponent f)"
  "JSON_parse blocked_env (u ''template manifest'') = Some demo_manifest"
  by (simp_all add: blocked_env_def demo_env_def u_eq_iff)

theorem customization_never_blocks_witness:
  "fault blocked_env WriteCss \<and> fault blocked_env ReadLayout \<and> fault blocked_env WritePage \<and>
   fault blocked_env (UnlinkComponent (u ''Header.js'')) \<and>
   (\<exists>w. andthen (setup_directories blocked_env [u ''home'', u ''my-app''] cloned)
               (setup_package blocked_env [u ''home'', u ''my-app''] (u ''my-app'')) = Inr w \<and>
        prefix (console w @ [Start (u ''Customizing application files...''),
                             Succeed (u ''Application files customized.''),
                             Start (u ''Setting up version control...'')])
               (console (final_world
                  (after_clone blocked_env [u ''home'', u ''my-app''] (u ''my-app'') cloned))))"
proof -
  let ?t = "[u ''home'', u ''my-app'']"
  obtain w2 where s2: "setup_directories blocked_env ?t cloned = Inr w2"
    using setup_directories_total by blast
  have "lookup (files w2) (pkgPath ?t) = Some (File (u ''template manifest''))"
    "lookup (files w2) ?t = Some Dir"
    using setup_directories_keeps [OF s2] demo_cloned_manifest demo_cloned_target
      pkgPath_apart(6,7) target_apart by auto
  then obtain w where s3: "setup_package blocked_env ?t (u ''my-app'') w2 = Inr w"
    using setup_package_succeeds [of blocked_env w2 ?t "u ''template manifest''" _ "u ''my-app''"]
      blocked_facts(1,2,7)
    unfolding demo_manifest_def by blast
  have a: "andthen (setup_directories blocked_env ?t cloned)
             (setup_package blocked_env ?t (u ''my-app'')) = Inr w"
    by (simp add: s2 s3 andthen_Inr)
  from customization_never_blocks [of blocked_env ?t w cloned "u ''my-app''"] a
  have "prefix (console w @ [Start (u ''Customizing application files...''),
                             Succeed (u ''Application files customized.''),
                             Start (u ''Setting up version control...'')])
               (console (final_world (after_clone blocked_env ?t (u ''my-app'') cloned)))"
    by auto
  with a show ?thesis
    using blocked_facts by blast
qed

lemma installed_manifest:
  "fs_readFile (files installed) (pkgPath [u ''home'', u ''my-app'']) =
     Inr (u ''rewritten manifest'')"
  by (simp add: installed_def fs_readFile_def lookup_def demo_paths)

theorem report_never_exits_witness:
  "console (final_world (report demo_env [u ''home'', u ''my-app''] installed)) =
     [Start (u ''Finalizing setup...''), Succeed (u ''Setup finalized.''),
      ConsoleLog (u ''Project setup complete! Happy Coding!''),
      Boxed (u ''npm run '' @ u ''start'' @ u ''  ->  '' @ u ''peachy dev'' @ [10] @
             u ''npm run '' @ u ''build'' @ u ''  ->  '' @ u ''peachy build'')] \<and>
   exit_code (report demo_env [u ''home'', u ''my-app''] installed) = 0"
proof -
  let ?t = "[u ''home'', u ''my-app'']"
  have r: "read_manifest demo_env RereadPkg (files installed) ?t = Inr demo_rewritten"
    by (simp add: read_manifest_def guarded_def installed_manifest demo_collaborators demo_parse)
  have c: "\<forall>e \<in> set [(u ''start'', JStr (u ''peachy dev'')),
                       (u ''build'', JStr (u ''peachy build''))]. \<exists>s. ToString (snd e) = Inr s"
    by simp
  have "console installed = []"
    by (simp add: installed_def)
  with report_never_exits [of demo_env ?t installed] r demo_scripts(2) c
  show ?thesis
    by (simp add: command_text_def)
qed

theorem report_counterexample:
  "read_manifest odd_env RereadPkg (files installed) [u ''home'', u ''my-app''] =
     Inr odd_manifest \<and>
   get_scripts odd_manifest =
     Inr (Some (JObj [(u ''build'', JObj [(u ''toString'', JNull)])])) \<and>
   console (final_world (report odd_env [u ''home'', u ''my-app''] installed)) =
     [Start (u ''Finalizing setup...''), Warn (u ''Final setup encountered issues.''),
      ConsoleLog (u ''Project setup complete! Happy Coding!''),
      Boxed (u ''Unable to fetch npm scripts.'')]"
proof -
  let ?t = "[u ''home'', u ''my-app'']"
  have r: "read_manifest odd_env RereadPkg (files installed) ?t = Inr odd_manifest"
    by (simp add: read_manifest_def guarded_def installed_manifest odd_env_def demo_env_def)
  have g: "get_scripts odd_manifest =
     Inr (Some (JObj [(u ''build'', JObj [(u ''toString'', JNull)])]))"
    by (simp add: odd_manifest_def)
  have a: "available_scripts odd_manifest = Inl TypeError"
    by (simp add: available_scripts_def g script_line_def)
  have "console installed = []"
    by (simp add: installed_def)
  then show ?thesis
    using r g a by (simp add: report_console)
qed


section \<open>The layout patch\<close>

lemma split_on_nonempty: "split_on sep t \<noteq> []"
  by (induction t) (auto split: list.splits)

lemma split_on_no_sep: "l \<in> set (split_on sep t) \<Longrightarrow> sep \<notin> set l"
proof (induction t arbitrary: l)
  case Nil
  then show ?case by simp
next
  case (Cons c t)
  show ?case
  proof (cases "c = sep")
    case True
    with Cons show ?thesis by auto
  next
    case False
    obtain l0 ls where s: "split_on sep t = l0 # ls"
      using split_on_nonempty [of sep t] by (cases "split_on sep t") auto
    with Cons False show ?thesis by auto
  qed
qed

lemma join_split: "join_on sep (split_on sep t) = t"
proof (induction t)
  case Nil
  then show ?case by simp
next
  case (Cons c t)
  obtain l0 ls where s: "split_on sep t = l0 # ls"
    using split_on_nonempty [of sep t] by (cases "split_on sep t") auto
  show ?case
  proof (cases "c = sep")
    case True
    with Cons s show ?thesis by simp
  next
    case False
    with Cons s show ?thesis by (cases ls) auto
  qed
qed

lemma split_on_append_sep:
  "sep \<notin> set l \<Longrightarrow> split_on sep (l @ sep # x) = l # split_on sep x"
proof (induction l)
  case Nil
  then show ?case by simp
next
  case (Cons c l)
  then show ?case by auto
qed

lemma split_on_line: "sep \<notin> set l \<Longrightarrow> split_on sep l = [l]"
  by (induction l) auto

lemma split_join:
  "ls \<noteq> [] \<Longrightarrow> \<forall>l \<in> set ls. sep \<notin> set l \<Longrightarrow> split_on sep (join_on sep ls) = ls"
proof (induction sep ls rule: join_on.induct)
  case (1 sep)
  then show ?case by simp
next
  case (2 sep l)
  then show ?case by (simp add: split_on_line)
next
  case (3 sep l l' ls)
  then show ?case by (simp add: split_on_append_sep)
qed

lemma filter_imports_lines:
  "split_on 10 (filter_imports t) =
     (let kept = filter (\<lambda>line. \<not> import_test line) (split_on 10 t)
      in if kept = [] then [[]] else kept)"
proof -
  let ?kept = "filter (\<lambda>line. \<not> import_test line) (split_on 10 t)"
  have "\<forall>l \<in> set ?kept. 10 \<notin> set l"
    using split_on_no_sep by fastforce
  then have "?kept \<noteq> [] \<Longrightarrow> split_on 10 (join_on 10 ?kept) = ?kept"
    by (rule split_join [rotated])
  then show ?thesis
    by (auto simp: filter_imports_def Let_def)
qed

lemma occurs_Nil: "occurs [] s"
  by (induction s) auto

lemma occurs_iff: "occurs p s \<longleftrightarrow> (\<exists>a b. s = a @ p @ b)"
proof (induction s)
  case Nil
  then show ?case by auto
next
  case (Cons c s)
  show ?case
  proof
    assume "occurs p (c # s)"
    then consider "prefix p (c # s)" | "occurs p s" by auto
    then show "\<exists>a b. c # s = a @ p @ b"
    proof cases
      case 1
      then obtain b where "c # s = p @ b" by (auto simp: prefix_def)
      then have "c # s = [] @ p @ b" by simp
      then show ?thesis by blast
    next
      case 2
      with Cons obtain a b where "s = a @ p @ b" by blast
      then have "c # s = (c # a) @ p @ b" by simp
      then show ?thesis by blast
    qed
  next
    assume "\<exists>a b. c # s = a @ p @ b"
    then obtain a b where ab: "c # s = a @ p @ b" by blast
    show "occurs p (c # s)"
    proof (cases a)
      case Nil
      with ab have "prefix p (c # s)" by (simp add: prefix_def)
      then show ?thesis by simp
    next
      case (Cons x a')
      with ab have "s = a' @ p @ b" by simp
      with Cons.IH show ?thesis by auto
    qed
  qed
qed

lemma occurs_tail: "occurs (c # p) s \<Longrightarrow> occurs p s"
proof -
  assume "occurs (c # p) s"
  then obtain a b where "s = a @ (c # p) @ b" by (auto simp: occurs_iff)
  then have "s = (a @ [c]) @ p @ b" by simp
  then show ?thesis unfolding occurs_iff by blast
qed

lemma occurs_needs: "occurs p s \<Longrightarrow> set p \<subseteq> set s"
  by (auto simp: occurs_iff)

lemma match_marker_None: "\<not> prefix (60 # name) s \<Longrightarrow> match_marker name s = None"
  by (simp add: match_marker_def)

lemma remove_all_quiet:
  assumes "\<not> occurs (60 # name) l" and "10 \<notin> set name" and "x = [] \<or> hd x = 10"
  shows "remove_all name (l @ x) = l @ remove_all name x"
  using assms(1)
proof (induction l)
  case Nil
  then show ?case by simp
next
  case (Cons c l)
  have "\<not> prefix (60 # name) ((c # l) @ x)"
  proof
    assume "prefix (60 # name) ((c # l) @ x)"
    then have "prefix (60 # name) (c # l) \<or>
               (\<exists>us. 60 # name = (c # l) @ us \<and> prefix us x)"
      by (simp only: prefix_append)
    then show False
    proof (elim disjE exE conjE)
      assume "prefix (60 # name) (c # l)"
      with Cons.prems show False by simp
    next
      fix us
      assume eq: "60 # name = (c # l) @ us" and us: "prefix us x"
      show False
      proof (cases us)
        case Nil
        with eq have "prefix (60 # name) (c # l)" by simp
        with Cons.prems show False by simp
      next
        case (Cons y ys)
        with us assms(3) have "y = 10" by (cases x) (auto simp: prefix_def)
        with eq Cons have "10 \<in> set (60 # name)"
          by (metis in_set_conv_decomp)
        with assms(2) show False by simp
      qed
    qed
  qed
  then have "match_marker name (c # (l @ x)) = None"
    by (simp add: match_marker_None)
  moreover have "\<not> occurs (60 # name) l"
    using Cons.prems by simp
  ultimately show ?case
    using Cons.IH by simp
qed

lemma blank_quiet: "list_all is_space l \<Longrightarrow> \<not> occurs (60 # name) l"
proof
  assume "list_all is_space l" and "occurs (60 # name) l"
  then have "60 \<in> set l" and "\<forall>c \<in> set l. is_space c"
    using occurs_needs [of "60 # name" l] by (auto simp: list_all_iff)
  then show False by (auto simp: is_space_def)
qed

lemma match_marker_shape:
  assumes "list_all is_space ws"
  shows "match_marker name (60 # name @ ws @ u ''/>'' @ rest) = Some rest"
proof -
  have "dropWhile is_space (ws @ u ''/>'' @ rest) = u ''/>'' @ rest"
    using assms by (induction ws) (simp_all add: u_def is_space_def)
  then show ?thesis
    by (simp add: match_marker_def u_def)
qed

lemma remove_all_marker:
  assumes "list_all is_space pre" and "list_all is_space ws"
  shows "remove_all name (pre @ 60 # name @ ws @ u ''/>'' @ rest) = pre @ remove_all name rest"
  using assms(1)
proof (induction pre)
  case Nil
  then show ?case
    using match_marker_shape [OF assms(2), of name rest] by simp
next
  case (Cons c pre)
  then have "c \<noteq> 60"
    by (auto simp: is_space_def)
  then have "match_marker name (c # pre @ 60 # name @ ws @ u ''/>'' @ rest) = None"
    by (simp add: match_marker_None)
  with Cons show ?case by simp
qed

lemma marker_line_shape:
  assumes "marker_line name l"
  obtains pre ws post where "l = pre @ 60 # name @ ws @ u ''/>'' @ post"
    and "list_all is_space pre" and "list_all is_space ws" and "list_all is_space post"
proof -
  let ?r = "dropWhile is_space l"
  from assms obtain post where m: "match_marker name ?r = Some post"
    and post: "list_all is_space post"
    by (auto simp: marker_line_def split: option.splits)
  from m have p: "prefix (60 # name) ?r"
    by (simp add: match_marker_def split: if_splits)
  then obtain r' where r: "?r = 60 # name @ r'"
    by (auto simp: prefix_def)
  from m r have p2: "prefix (u ''/>'') (dropWhile is_space r')"
    and post_eq: "post = drop 2 (dropWhile is_space r')"
    by (auto simp: match_marker_def Let_def split: if_splits)
  from p2 have "dropWhile is_space r' = u ''/>'' @ post"
    using post_eq by (auto simp: prefix_def u_def)
  then have "r' = takeWhile is_space r' @ u ''/>'' @ post"
    by (metis takeWhile_dropWhile_id)
  with r have "l = takeWhile is_space l @ 60 # name @ takeWhile is_space r' @ u ''/>'' @ post"
    by (metis takeWhile_dropWhile_id)
  moreover have "list_all is_space (takeWhile is_space l)"
    "list_all is_space (takeWhile is_space r')"
    by (auto simp: list_all_iff dest: set_takeWhileD)
  ultimately show ?thesis
    using post that by blast
qed

lemma remove_all_quiet_line:
  "\<not> occurs (60 # name) l \<Longrightarrow> 10 \<notin> set name \<Longrightarrow> remove_all name l = l"
  using remove_all_quiet [of name l "[]"] by simp

lemma remove_all_marker_line:
  assumes "marker_line name l" and "10 \<notin> set name"
  shows "list_all is_space (remove_all name l)"
proof -
  from assms(1) obtain pre ws post where l: "l = pre @ 60 # name @ ws @ u ''/>'' @ post"
    and b: "list_all is_space pre" "list_all is_space ws" "list_all is_space post"
    by (rule marker_line_shape)
  have "remove_all name l = pre @ remove_all name post"
    unfolding l using b(1,2) by (rule remove_all_marker)
  also have "remove_all name post = post"
    using blank_quiet [OF b(3)] assms(2) by (rule remove_all_quiet_line)
  finally show ?thesis
    using b by simp
qed

lemma remove_all_line:
  assumes "\<not> occurs (60 # name) l \<or> marker_line name l" and "10 \<notin> set name"
    and "x = [] \<or> hd x = 10"
  shows "remove_all name (l @ x) = remove_all name l @ remove_all name x"
  using assms(1)
proof
  assume q: "\<not> occurs (60 # name) l"
  then show ?thesis
    using remove_all_quiet [OF q assms(2,3)] remove_all_quiet_line [OF q assms(2)] by simp
next
  assume "marker_line name l"
  then obtain pre ws post where l: "l = pre @ 60 # name @ ws @ u ''/>'' @ post"
    and b: "list_all is_space pre" "list_all is_space ws" "list_all is_space post"
    by (rule marker_line_shape)
  have q: "\<not> occurs (60 # name) post"
    using b(3) by (rule blank_quiet)
  have "remove_all name (l @ x) = pre @ remove_all name (post @ x)"
    using remove_all_marker [OF b(1,2), of name "post @ x"] by (simp add: l)
  also have "remove_all name (post @ x) = post @ remove_all name x"
    using q assms(2,3) by (rule remove_all_quiet)
  finally have 1: "remove_all name (l @ x) = pre @ post @ remove_all name x" .
  have "remove_all name l = pre @ remove_all name post"
    unfolding l using b(1,2) by (rule remove_all_marker)
  also have "remove_all name post = post"
    using q assms(2) by (rule remove_all_quiet_line)
  finally show ?thesis
    using 1 by simp
qed

lemma remove_all_newline: "remove_all name (10 # x) = 10 # remove_all name x"
  by (simp add: match_marker_None)

lemma remove_all_join:
  assumes "\<forall>l \<in> set ls. \<not> occurs (60 # name) l \<or> marker_line name l" and "10 \<notin> set name"
  shows "remove_all name (join_on 10 ls) = join_on 10 (map (remove_all name) ls)"
  using assms(1)
proof (induction "10 :: nat" ls rule: join_on.induct)
  case 1
  then show ?case by simp
next
  case (2 l)
  then show ?case by simp
next
  case (3 l l' ls)
  have "remove_all name (l @ 10 # join_on 10 (l' # ls)) =
          remove_all name l @ remove_all name (10 # join_on 10 (l' # ls))"
    using 3(2) assms(2) by (intro remove_all_line) auto
  also have "remove_all name (10 # join_on 10 (l' # ls)) =
               10 # remove_all name (join_on 10 (l' # ls))"
    by (rule remove_all_newline)
  also have "remove_all name (join_on 10 (l' # ls)) =
               join_on 10 (map (remove_all name) (l' # ls))"
    using 3 by simp
  finally show ?case
    by simp
qed

lemma occurs_skip: "60 \<notin> set pre \<Longrightarrow> occurs (60 # q) (pre @ s) = occurs (60 # q) s"
  by (induction pre) auto

lemma occurs_no_lt: "60 \<notin> set s \<Longrightarrow> \<not> occurs (60 # q) s"
  using occurs_needs [of "60 # q" s] by auto

lemma blank_no_lt: "list_all is_space l \<Longrightarrow> 60 \<notin> set l"
  by (auto simp: list_all_iff is_space_def)

lemma footer_line_quiet:
  assumes "marker_line (u ''Footer'') l"
  shows "\<not> occurs (60 # u ''Header'') l"
proof -
  from assms obtain pre ws post where l: "l = pre @ 60 # u ''Footer'' @ ws @ u ''/>'' @ post"
    and b: "list_all is_space pre" "list_all is_space ws" "list_all is_space post"
    by (rule marker_line_shape)
  have "60 \<notin> set (u ''Footer'' @ ws @ u ''/>'' @ post)"
    using b(2,3) by (auto simp: u_def dest: blank_no_lt)
  then have "\<not> occurs (60 # u ''Header'') (u ''Footer'' @ ws @ u ''/>'' @ post)"
    by (rule occurs_no_lt)
  moreover have "\<not> prefix (u ''Header'') (u ''Footer'' @ ws @ u ''/>'' @ post)"
    by (simp add: u_def)
  ultimately have "\<not> occurs (60 # u ''Header'') (60 # u ''Footer'' @ ws @ u ''/>'' @ post)"
    by simp
  then show ?thesis
    unfolding l using occurs_skip [OF blank_no_lt [OF b(1)]] by simp
qed

lemma set_remove_all: "set (remove_all name s) \<subseteq> set s"
proof (induction name s rule: remove_all.induct)
  case (1 name)
  then show ?case by simp
next
  case (2 name c cs)
  show ?case
  proof (cases "match_marker name (c # cs)")
    case None
    with 2 show ?thesis by auto
  next
    case (Some r)
    then have "r = drop 2 (dropWhile is_space (drop (Suc (length name)) (c # cs)))"
      by (simp add: match_marker_def Let_def split: if_splits)
    then have "set r \<subseteq> set (c # cs)"
      by (metis set_drop_subset set_dropWhileD subsetI subset_trans)
    with 2 Some show ?thesis by auto
  qed
qed

lemma blank_no_import: "list_all is_space l \<Longrightarrow> \<not> import_test l"
proof (induction l)
  case Nil
  then show ?case by simp
next
  case (Cons c l)
  then have "c \<noteq> 105"
    by (auto simp: is_space_def)
  then have "\<not> import_at (c # l)"
    by (simp add: import_at_def u_def)
  with Cons show ?case by simp
qed

lemma has_marker_occurs: "has_marker name s \<Longrightarrow> occurs (60 # name) s"
proof (induction s)
  case Nil
  then show ?case by simp
next
  case (Cons c s)
  then show ?case
    by (auto simp: match_marker_def split: if_splits)
qed

lemma occurs_append_sep:
  assumes "occurs p (l @ 10 # x)" and "10 \<notin> set p"
  shows "occurs p l \<or> occurs p x"
  using assms(1)
proof (induction l)
  case Nil
  then have "prefix p (10 # x) \<or> occurs p x" by simp
  then show ?case
  proof
    assume "prefix p (10 # x)"
    with assms(2) have "p = []" by (cases p) auto
    then show ?thesis by simp
  qed simp
next
  case (Cons c l)
  then have "prefix p ((c # l) @ 10 # x) \<or> occurs p (l @ 10 # x)" by simp
  then show ?case
  proof
    assume "prefix p ((c # l) @ 10 # x)"
    then have "prefix p (c # l) \<or> (\<exists>us. p = (c # l) @ us \<and> prefix us (10 # x))"
      by (simp only: prefix_append)
    then show ?thesis
    proof (elim disjE exE conjE)
      assume "prefix p (c # l)"
      then show ?thesis by simp
    next
      fix us
      assume p: "p = (c # l) @ us" and us: "prefix us (10 # x)"
      show ?thesis
      proof (cases us)
        case Nil
        with p show ?thesis by simp
      next
        case (Cons y ys)
        with us have "y = 10" by simp
        with p Cons assms(2) show ?thesis by simp
      qed
    qed
  next
    assume "occurs p (l @ 10 # x)"
    with Cons.IH show ?thesis by auto
  qed
qed

lemma occurs_join:
  assumes "occurs p (join_on 10 ls)" and "10 \<notin> set p" and "p \<noteq> []"
  shows "\<exists>l \<in> set ls. occurs p l"
  using assms(1)
proof (induction "10 :: nat" ls rule: join_on.induct)
  case 1
  with assms(3) show ?case by simp
next
  case (2 l)
  then show ?case by simp
next
  case (3 l l' ls)
  then have "occurs p l \<or> occurs p (join_on 10 (l' # ls))"
    using occurs_append_sep [OF _ assms(2)] by simp
  with 3 show ?case by auto
qed

lemma no_marker_unchanged: "\<not> has_marker name s \<Longrightarrow> remove_all name s = s"
  by (induction s) auto

lemma name_no_newline: "10 \<notin> set (u ''Header'')" "10 \<notin> set (u ''Footer'')"
  by (simp_all add: u_def)

lemma not_mentions_quiet:
  assumes "\<not> mentions l"
  shows "\<not> occurs (60 # u ''Header'') l" "\<not> occurs (60 # u ''Footer'') l"
  using assms occurs_tail unfolding mentions_def by blast+

text \<open>What the two replacements do to one line of a tidy text.\<close>

lemma line_two_pass:
  assumes "\<not> import_test l" and "10 \<notin> set l"
    and "\<not> mentions l \<or> marker_line (u ''Header'') l \<or> marker_line (u ''Footer'') l"
  defines "l1 \<equiv> remove_all (u ''Header'') l"
  defines "l2 \<equiv> remove_all (u ''Footer'') l1"
  shows "\<not> occurs (60 # u ''Header'') l \<or> marker_line (u ''Header'') l"
    and "\<not> occurs (60 # u ''Footer'') l1 \<or> marker_line (u ''Footer'') l1"
    and "if mentions l then list_all is_space l2 else l2 = l"
    and "\<not> import_test l2"
    and "\<not> occurs (60 # u ''Header'') l2" and "\<not> occurs (60 # u ''Footer'') l2"
    and "10 \<notin> set l2"
proof -
  have sub: "set l2 \<subseteq> set l"
    unfolding l1_def l2_def using set_remove_all by (meson subset_trans)
  then show "10 \<notin> set l2"
    using assms(2) by auto
  consider (plain) "\<not> mentions l" | (header) "mentions l" "marker_line (u ''Header'') l"
    | (footer) "mentions l" "marker_line (u ''Footer'') l"
    using assms(3) by blast
  then have "(\<not> occurs (60 # u ''Header'') l \<or> marker_line (u ''Header'') l) \<and>
    (\<not> occurs (60 # u ''Footer'') l1 \<or> marker_line (u ''Footer'') l1) \<and>
    (if mentions l then list_all is_space l2 else l2 = l) \<and>
    \<not> import_test l2 \<and> \<not> occurs (60 # u ''Header'') l2 \<and> \<not> occurs (60 # u ''Footer'') l2"
  proof cases
    case plain
    then have q: "\<not> occurs (60 # u ''Header'') l" "\<not> occurs (60 # u ''Footer'') l"
      by (rule not_mentions_quiet)+
    then have "l1 = l" "l2 = l"
      unfolding l1_def l2_def by (simp_all add: remove_all_quiet_line name_no_newline)
    with plain q assms(1) show ?thesis by simp
  next
    case header
    then have b: "list_all is_space l1"
      unfolding l1_def by (simp add: remove_all_marker_line name_no_newline)
    then have "l2 = l1"
      unfolding l2_def by (simp add: remove_all_quiet_line blank_quiet name_no_newline)
    with b header show ?thesis
      by (simp add: blank_quiet blank_no_import)
  next
    case footer
    then have "\<not> occurs (60 # u ''Header'') l"
      by (simp add: footer_line_quiet)
    then have l1: "l1 = l"
      unfolding l1_def by (simp add: remove_all_quiet_line name_no_newline)
    with footer have b: "list_all is_space l2"
      unfolding l2_def by (simp add: remove_all_marker_line name_no_newline)
    with l1 footer show ?thesis
      by (simp add: blank_quiet blank_no_import footer_line_quiet)
  qed
  then show "\<not> occurs (60 # u ''Header'') l \<or> marker_line (u ''Header'') l"
    and "\<not> occurs (60 # u ''Footer'') l1 \<or> marker_line (u ''Footer'') l1"
    and "if mentions l then list_all is_space l2 else l2 = l"
    and "\<not> import_test l2"
    and "\<not> occurs (60 # u ''Header'') l2" and "\<not> occurs (60 # u ''Footer'') l2"
    by blast+
qed

lemma not_mentions_Nil: "\<not> mentions []"
  by (simp add: mentions_def u_def)

lemma tidy_lines:
  assumes "tidy t" and "l \<in> set (split_on 10 (filter_imports t))"
  shows "\<not> import_test l" and "10 \<notin> set l"
    and "\<not> mentions l \<or> marker_line (u ''Header'') l \<or> marker_line (u ''Footer'') l"
proof -
  show "10 \<notin> set l"
    using assms(2) by (rule split_on_no_sep)
  have "l = [] \<or> (l \<in> set (split_on 10 t) \<and> \<not> import_test l)"
    using assms(2) unfolding filter_imports_lines by (auto simp: Let_def split: if_splits)
  then show "\<not> import_test l"
    and "\<not> mentions l \<or> marker_line (u ''Header'') l \<or> marker_line (u ''Footer'') l"
    using assms(1) by (auto simp: tidy_def list_all_iff not_mentions_Nil)
qed

lemma tidy_patch:
  assumes "tidy t"
  shows "split_on 10 (patch_layout t) =
           map (\<lambda>l. remove_all (u ''Footer'') (remove_all (u ''Header'') l))
               (split_on 10 (filter_imports t))"
    and "list_all (\<lambda>l. \<not> import_test l) (split_on 10 (patch_layout t))"
    and "\<not> has_marker (u ''Header'') (patch_layout t)"
    and "\<not> has_marker (u ''Footer'') (patch_layout t)"
    and "list_all2 (\<lambda>l l'. if mentions l then list_all is_space l' else l' = l)
           (split_on 10 (filter_imports t)) (split_on 10 (patch_layout t))"
proof -
  let ?ls = "split_on 10 (filter_imports t)"
  let ?g = "\<lambda>l. remove_all (u ''Footer'') (remove_all (u ''Header'') l)"
  note line = line_two_pass [OF tidy_lines [OF assms]]
  have 1: "remove_all (u ''Header'') (join_on 10 ?ls) =
             join_on 10 (map (remove_all (u ''Header'')) ?ls)"
    using line(1) by (intro remove_all_join) (auto simp: name_no_newline)
  have 2: "remove_all (u ''Footer'') (join_on 10 (map (remove_all (u ''Header'')) ?ls)) =
             join_on 10 (map (remove_all (u ''Footer'')) (map (remove_all (u ''Header'')) ?ls))"
    using line(2) by (intro remove_all_join) (auto simp: name_no_newline)
  have out: "patch_layout t = join_on 10 (map ?g ?ls)"
    unfolding patch_layout_def using 1 2 by (simp add: join_split [of 10 "filter_imports t"] comp_def)
  have "map ?g ?ls \<noteq> []"
    by (simp add: split_on_nonempty)
  moreover have "\<forall>l \<in> set (map ?g ?ls). 10 \<notin> set l"
    using line(7) by auto
  ultimately show lines: "split_on 10 (patch_layout t) = map ?g ?ls"
    unfolding out by (rule split_join)
  show "list_all (\<lambda>l. \<not> import_test l) (split_on 10 (patch_layout t))"
    unfolding lines using line(4) by (auto simp: list_all_iff)
  show "\<not> has_marker (u ''Header'') (patch_layout t)"
  proof
    assume "has_marker (u ''Header'') (patch_layout t)"
    then have "occurs (60 # u ''Header'') (join_on 10 (map ?g ?ls))"
      unfolding out by (rule has_marker_occurs)
    then obtain l where "l \<in> set (map ?g ?ls)" "occurs (60 # u ''Header'') l"
      using occurs_join [of "60 # u ''Header''" "map ?g ?ls"] by (auto simp: name_no_newline)
    with line(5) show False by auto
  qed
  show "\<not> has_marker (u ''Footer'') (patch_layout t)"
  proof
    assume "has_marker (u ''Footer'') (patch_layout t)"
    then have "occurs (60 # u ''Footer'') (join_on 10 (map ?g ?ls))"
      unfolding out by (rule has_marker_occurs)
    then obtain l where "l \<in> set (map ?g ?ls)" "occurs (60 # u ''Footer'') l"
      using occurs_join [of "60 # u ''Footer''" "map ?g ?ls"] by (auto simp: name_no_newline)
    with line(6) show False by auto
  qed
  show "list_all2 (\<lambda>l l'. if mentions l then list_all is_space l' else l' = l)
           ?ls (split_on 10 (patch_layout t))"
    unfolding lines using line(3) by (simp add: list_all2_map2 list_all2_same)
qed

lemma clean_fixed:
  assumes "list_all (\<lambda>l. \<not> import_test l) (split_on 10 y)"
    and "\<not> has_marker (u ''Header'') y" and "\<not> has_marker (u ''Footer'') y"
  shows "patch_layout y = y"
proof -
  have "filter (\<lambda>line. \<not> import_test line) (split_on 10 y) = split_on 10 y"
    using assms(1) by (simp add: list_all_iff)
  then have "filter_imports y = y"
    by (simp add: filter_imports_def join_split)
  then show ?thesis
    using assms(2,3) by (simp add: patch_layout_def no_marker_unchanged)
qed

lemma filter_imports_idem: "filter_imports (filter_imports t) = filter_imports t"
proof -
  have "\<forall>l \<in> set (split_on 10 (filter_imports t)). \<not> import_test l"
    unfolding filter_imports_lines by (auto simp: Let_def)
  then have "filter (\<lambda>line. \<not> import_test line) (split_on 10 (filter_imports t)) =
              split_on 10 (filter_imports t)"
    by simp
  then show ?thesis
    using join_split [of 10 "filter_imports t"]
    by (simp add: filter_imports_def [of "filter_imports t"])
qed

subsection \<open>Texts in which no marker spans a line break\<close>

lemma prefix_before_sep:
  assumes "10 \<notin> set p"
  shows "prefix p (l @ 10 # x) \<longleftrightarrow> prefix p l"
proof
  assume "prefix p (l @ 10 # x)"
  then have "prefix p l \<or> (\<exists>us. p = l @ us \<and> prefix us (10 # x))"
    by (simp only: prefix_append)
  then show "prefix p l"
  proof (elim disjE exE conjE)
    fix us
    assume p: "p = l @ us" and us: "prefix us (10 # x)"
    show "prefix p l"
    proof (cases us)
      case Nil
      with p show ?thesis by simp
    next
      case (Cons y ys)
      with us have "y = 10" by simp
      with p Cons assms show ?thesis by simp
    qed
  qed
next
  assume "prefix p l"
  then show "prefix p (l @ 10 # x)"
    by (rule prefix_prefix)
qed

text \<open>A marker that begins in a line and is not left unfinished there ends in the line.\<close>

lemma match_marker_before_sep:
  assumes "10 \<notin> set name"
    and "\<not> (prefix (60 # name) l \<and> list_all is_space (drop (Suc (length name)) l))"
  shows "match_marker name (l @ 10 # x) = map_option (\<lambda>r. r @ 10 # x) (match_marker name l)"
proof (cases "prefix (60 # name) l")
  case False
  then have "\<not> prefix (60 # name) (l @ 10 # x)"
    using assms(1) prefix_before_sep [of "60 # name" l x] by simp
  with False show ?thesis
    by (simp add: match_marker_None)
next
  case True
  then obtain l' where l: "l = 60 # name @ l'"
    by (auto simp: prefix_def)
  with assms(2) True have "\<not> list_all is_space l'"
    by simp
  then obtain c where "c \<in> set l'" "\<not> is_space c"
    by (auto simp: list_all_iff)
  then have d: "dropWhile is_space (l' @ 10 # x) = dropWhile is_space l' @ 10 # x"
    by (rule dropWhile_append1)
  let ?d = "dropWhile is_space l'"
  have p: "prefix (u ''/>'') (?d @ 10 # x) \<longleftrightarrow> prefix (u ''/>'') ?d"
    by (rule prefix_before_sep) (simp add: u_def)
  have m1: "match_marker name (l @ 10 # x) =
              (if prefix (u ''/>'') ?d then Some (drop 2 (?d @ 10 # x)) else None)"
    by (simp add: match_marker_def l d p)
  have m2: "match_marker name l = (if prefix (u ''/>'') ?d then Some (drop 2 ?d) else None)"
    by (simp add: match_marker_def l)
  have "drop 2 (?d @ 10 # x) = drop 2 ?d @ 10 # x" if "prefix (u ''/>'') ?d"
    using that by (auto simp: prefix_def u_def)
  then show ?thesis
    by (simp add: m1 m2)
qed

lemma unfinished_append: "unfinished name s \<Longrightarrow> unfinished name (a @ s)"
  by (induction a) auto

lemma match_marker_rest: "match_marker name s = Some r \<Longrightarrow> suffix r s"
proof -
  assume "match_marker name s = Some r"
  then have "r = drop 2 (dropWhile is_space (drop (Suc (length name)) s))"
    by (simp add: match_marker_def Let_def split: if_splits)
  then show ?thesis
    by (metis suffix_drop suffix_dropWhile suffix_order.trans)
qed

lemma remove_all_before_sep:
  "10 \<notin> set name \<Longrightarrow> \<not> unfinished name l \<Longrightarrow>
   remove_all name (l @ 10 # x) = remove_all name l @ 10 # remove_all name x"
proof (induction name l rule: remove_all.induct)
  case (1 name)
  then show ?case
    by (simp add: match_marker_None)
next
  case (2 name c cs)
  from "2.prems"(2)
  have nu: "\<not> (prefix (60 # name) (c # cs) \<and>
               list_all is_space (drop (Suc (length name)) (c # cs)))"
    and nt: "\<not> unfinished name cs"
    by simp_all
  have m: "match_marker name ((c # cs) @ 10 # x) =
             map_option (\<lambda>r. r @ 10 # x) (match_marker name (c # cs))"
    using "2.prems"(1) nu by (rule match_marker_before_sep)
  show ?case
  proof (cases "match_marker name (c # cs)")
    case None
    with m have "match_marker name (c # cs @ 10 # x) = None"
      by simp
    with None "2.IH" "2.prems"(1) nt show ?thesis
      by simp
  next
    case (Some r)
    then obtain a where "c # cs = a @ r"
      using match_marker_rest [of name "c # cs" r] by (auto simp: suffix_def)
    then have "\<not> unfinished name r"
      using "2.prems"(2) unfinished_append [of name r a] by auto
    moreover from m Some have "match_marker name (c # cs @ 10 # x) = Some (r @ 10 # x)"
      by simp
    ultimately show ?thesis
      using Some "2.IH" "2.prems"(1) by simp
  qed
qed

lemma remove_all_lines:
  assumes "\<forall>l \<in> set ls. \<not> unfinished name l" and "10 \<notin> set name"
  shows "remove_all name (join_on 10 ls) = join_on 10 (map (remove_all name) ls)"
  using assms(1)
proof (induction "10 :: nat" ls rule: join_on.induct)
  case 1
  then show ?case by simp
next
  case (2 l)
  then show ?case by simp
next
  case (3 l l' ls)
  have "remove_all name (l @ 10 # join_on 10 (l' # ls)) =
          remove_all name l @ 10 # remove_all name (join_on 10 (l' # ls))"
    using assms(2) 3(2) by (intro remove_all_before_sep) auto
  also have "remove_all name (join_on 10 (l' # ls)) =
               join_on 10 (map (remove_all name) (l' # ls))"
    using 3 by simp
  finally show ?case
    by simp
qed

lemma has_marker_before_sep:
  assumes "10 \<notin> set name" and "has_marker name (l @ 10 # x)"
  shows "has_marker name l \<or> unfinished name l \<or> has_marker name x"
  using assms(2)
proof (induction l)
  case Nil
  have "match_marker name (10 # x) = None"
    by (simp add: match_marker_None)
  with Nil show ?case by simp
next
  case (Cons c l)
  show ?case
  proof (cases "prefix (60 # name) (c # l) \<and>
                list_all is_space (drop (Suc (length name)) (c # l))")
    case True
    then show ?thesis by simp
  next
    case False
    have m: "match_marker name ((c # l) @ 10 # x) =
               map_option (\<lambda>r. r @ 10 # x) (match_marker name (c # l))"
      using assms(1) False by (rule match_marker_before_sep)
    from Cons.prems
    have "match_marker name ((c # l) @ 10 # x) \<noteq> None \<or> has_marker name (l @ 10 # x)"
      by simp
    then show ?thesis
    proof
      assume "match_marker name ((c # l) @ 10 # x) \<noteq> None"
      with m have "match_marker name (c # l) \<noteq> None"
        by auto
      then show ?thesis by simp
    next
      assume "has_marker name (l @ 10 # x)"
      with Cons.IH show ?thesis by auto
    qed
  qed
qed

lemma has_marker_lines:
  assumes "has_marker name (join_on 10 ls)" and "10 \<notin> set name"
  shows "\<exists>l \<in> set ls. has_marker name l \<or> unfinished name l"
  using assms(1)
proof (induction "10 :: nat" ls rule: join_on.induct)
  case 1
  then show ?case by simp
next
  case (2 l)
  then show ?case by simp
next
  case (3 l l' ls)
  then have "has_marker name l \<or> unfinished name l \<or> has_marker name (join_on 10 (l' # ls))"
    using has_marker_before_sep [OF assms(2)] by simp
  with 3 show ?case by auto
qed

lemma unfinished_occurs: "unfinished name l \<Longrightarrow> occurs (60 # name) l"
  by (induction l) auto

lemma unfinished_skip: "60 \<notin> set pre \<Longrightarrow> unfinished name (pre @ s) = unfinished name s"
  by (induction pre) auto

lemma name_no_lt: "60 \<notin> set (u ''Header'')" "60 \<notin> set (u ''Footer'')"
  by (simp_all add: u_def)

lemma marker_line_finished:
  assumes "marker_line name l" and "60 \<notin> set name"
  shows "\<not> unfinished name l"
proof -
  from assms(1) obtain pre ws post where l: "l = pre @ 60 # name @ ws @ u ''/>'' @ post"
    and b: "list_all is_space pre" "list_all is_space ws" "list_all is_space post"
    by (rule marker_line_shape)
  have "60 \<notin> set (name @ ws @ u ''/>'' @ post)"
    using b(2,3) assms(2) by (auto simp: u_def dest: blank_no_lt)
  then have "\<not> occurs (60 # name) (name @ ws @ u ''/>'' @ post)"
    by (rule occurs_no_lt)
  then have "\<not> unfinished name (name @ ws @ u ''/>'' @ post)"
    using unfinished_occurs by blast
  moreover have "\<not> list_all is_space (ws @ u ''/>'' @ post)"
    by (simp add: u_def is_space_def)
  ultimately have "\<not> unfinished name (60 # name @ ws @ u ''/>'' @ post)"
    by simp
  then show ?thesis
    unfolding l using unfinished_skip [OF blank_no_lt [OF b(1)]] by simp
qed

lemma marker_line_intro:
  assumes "list_all is_space pre" and "list_all is_space ws" and "list_all is_space post"
  shows "marker_line name (pre @ 60 # name @ ws @ u ''/>'' @ post)"
proof -
  have "dropWhile is_space (pre @ 60 # name @ ws @ u ''/>'' @ post) =
          dropWhile is_space (60 # name @ ws @ u ''/>'' @ post)"
    using assms(1) by (intro dropWhile_append2) (simp add: list_all_iff)
  also have "\<dots> = 60 # name @ ws @ u ''/>'' @ post"
    by (simp add: is_space_def)
  finally show ?thesis
    using match_marker_shape [OF assms(2), of name post] assms(3) by (simp add: marker_line_def)
qed

lemma strip_plain:
  "\<not> occurs (60 # u ''Header'') l \<Longrightarrow> \<not> occurs (60 # u ''Footer'') l \<Longrightarrow> strip_markers l = l"
  by (simp add: strip_markers_def remove_all_quiet_line name_no_newline)

lemma strip_marker_line:
  assumes "name = u ''Header'' \<or> name = u ''Footer''"
    and b: "list_all is_space pre" "list_all is_space ws" "list_all is_space post"
  shows "strip_markers (pre @ 60 # name @ ws @ u ''/>'' @ post) = pre @ post"
proof -
  let ?l = "pre @ 60 # name @ ws @ u ''/>'' @ post"
  have blank: "list_all is_space (pre @ post)"
    using b by simp
  have n: "10 \<notin> set name"
    using assms(1) name_no_newline by auto
  have r: "remove_all name ?l = pre @ post"
  proof -
    have "remove_all name ?l = pre @ remove_all name post"
      using b(1,2) by (rule remove_all_marker)
    also have "remove_all name post = post"
      using blank_quiet [OF b(3)] n by (rule remove_all_quiet_line)
    finally show ?thesis .
  qed
  from assms(1) show ?thesis
  proof
    assume h: "name = u ''Header''"
    have "remove_all (u ''Footer'') (pre @ post) = pre @ post"
      using blank_quiet [OF blank] name_no_newline(2) by (rule remove_all_quiet_line)
    with r h show ?thesis
      by (simp add: strip_markers_def)
  next
    assume f: "name = u ''Footer''"
    have "marker_line (u ''Footer'') ?l"
      unfolding f using b by (rule marker_line_intro)
    then have "\<not> occurs (60 # u ''Header'') ?l"
      by (rule footer_line_quiet)
    then have "remove_all (u ''Header'') ?l = ?l"
      using name_no_newline(1) by (rule remove_all_quiet_line)
    with r f show ?thesis
      by (simp add: strip_markers_def)
  qed
qed

lemma closed_patch:
  assumes "closed t"
  shows "patch_layout t = join_on 10 (map strip_markers (split_on 10 (filter_imports t)))"
    and "split_on 10 (patch_layout t) = map strip_markers (split_on 10 (filter_imports t))"
proof -
  let ?ls = "split_on 10 (filter_imports t)"
  from assms have c: "\<forall>l \<in> set ?ls. \<not> unfinished (u ''Header'') l"
    "\<forall>l \<in> set (map (remove_all (u ''Header'')) ?ls). \<not> unfinished (u ''Footer'') l"
    by (simp_all add: closed_def list_all_iff)
  have 1: "remove_all (u ''Header'') (join_on 10 ?ls) =
             join_on 10 (map (remove_all (u ''Header'')) ?ls)"
    using c(1) name_no_newline(1) by (rule remove_all_lines)
  have 2: "remove_all (u ''Footer'') (join_on 10 (map (remove_all (u ''Header'')) ?ls)) =
             join_on 10 (map (remove_all (u ''Footer'')) (map (remove_all (u ''Header'')) ?ls))"
    using c(2) name_no_newline(2) by (rule remove_all_lines)
  have m: "map (remove_all (u ''Footer'')) (map (remove_all (u ''Header'')) ?ls) =
             map strip_markers ?ls"
    by (simp add: strip_markers_def comp_def)
  have "patch_layout t = remove_all (u ''Footer'') (remove_all (u ''Header'') (join_on 10 ?ls))"
    by (simp add: patch_layout_def join_split)
  also have "\<dots> = remove_all (u ''Footer'') (join_on 10 (map (remove_all (u ''Header'')) ?ls))"
    by (simp only: 1)
  also have "\<dots> = join_on 10 (map (remove_all (u ''Footer''))
                                 (map (remove_all (u ''Header'')) ?ls))"
    by (rule 2)
  also have "\<dots> = join_on 10 (map strip_markers ?ls)"
    by (simp only: m)
  finally show out: "patch_layout t = join_on 10 (map strip_markers ?ls)" .
  have "map strip_markers ?ls \<noteq> []"
    by (simp add: split_on_nonempty)
  moreover have "\<forall>l \<in> set (map strip_markers ?ls). 10 \<notin> set l"
  proof
    fix l'
    assume "l' \<in> set (map strip_markers ?ls)"
    then obtain l where l: "l \<in> set ?ls" and l': "l' = strip_markers l"
      by auto
    have "set l' \<subseteq> set l"
      unfolding l' strip_markers_def using set_remove_all by (meson subset_trans)
    then show "10 \<notin> set l'"
      using split_on_no_sep [OF l] by auto
  qed
  ultimately show "split_on 10 (patch_layout t) = map strip_markers ?ls"
    unfolding out by (rule split_join)
qed

lemma settled_patch:
  assumes "closed t"
    and "list_all (\<lambda>l. settled (strip_markers l)) (split_on 10 (filter_imports t))"
  shows "list_all (\<lambda>l. \<not> import_test l) (split_on 10 (patch_layout t))"
    and "\<not> has_marker (u ''Header'') (patch_layout t)"
    and "\<not> has_marker (u ''Footer'') (patch_layout t)"
proof -
  let ?ls = "split_on 10 (filter_imports t)"
  from assms(2) have s: "\<forall>l' \<in> set (map strip_markers ?ls). settled l'"
    by (simp add: list_all_iff)
  then show "list_all (\<lambda>l. \<not> import_test l) (split_on 10 (patch_layout t))"
    unfolding closed_patch(2) [OF assms(1)] by (simp add: list_all_iff settled_def)
  show "\<not> has_marker (u ''Header'') (patch_layout t)"
  proof
    assume "has_marker (u ''Header'') (patch_layout t)"
    then have "has_marker (u ''Header'') (join_on 10 (map strip_markers ?ls))"
      by (simp only: closed_patch(1) [OF assms(1)])
    then obtain l' where "l' \<in> set (map strip_markers ?ls)"
      "has_marker (u ''Header'') l' \<or> unfinished (u ''Header'') l'"
      using has_marker_lines [OF _ name_no_newline(1)] by blast
    with s show False
      by (auto simp: settled_def)
  qed
  show "\<not> has_marker (u ''Footer'') (patch_layout t)"
  proof
    assume "has_marker (u ''Footer'') (patch_layout t)"
    then have "has_marker (u ''Footer'') (join_on 10 (map strip_markers ?ls))"
      by (simp only: closed_patch(1) [OF assms(1)])
    then obtain l' where "l' \<in> set (map strip_markers ?ls)"
      "has_marker (u ''Footer'') l' \<or> unfinished (u ''Footer'') l'"
      using has_marker_lines [OF _ name_no_newline(2)] by blast
    with s show False
      by (auto simp: settled_def)
  qed
qed

lemma tidy_closed:
  assumes "tidy t"
  shows "closed t"
    and "list_all (\<lambda>l. settled (strip_markers l)) (split_on 10 (filter_imports t))"
proof -
  note line = line_two_pass [OF tidy_lines [OF assms]]
  show "closed t"
    unfolding closed_def list_all_iff
  proof (intro ballI conjI)
    fix l
    assume l: "l \<in> set (split_on 10 (filter_imports t))"
    show "\<not> unfinished (u ''Header'') l"
      using line(1) [of l] l unfinished_occurs marker_line_finished name_no_lt(1) by blast
    show "\<not> unfinished (u ''Footer'') (remove_all (u ''Header'') l)"
      using line(2) [of l] l unfinished_occurs marker_line_finished name_no_lt(2) by blast
  qed
  show "list_all (\<lambda>l. settled (strip_markers l)) (split_on 10 (filter_imports t))"
    unfolding list_all_iff settled_def strip_markers_def
    using line(4,5,6) has_marker_occurs unfinished_occurs by blast
qed

text \<open>
  Claim C2 (amended). The import filter keeps exactly the lines that do not match the import
  pattern, verbatim and in order (an empty result is the one empty line). When no kept line
  ends in an unfinished marker at the time its replacement runs, the lines of the patched
  text are the kept lines, in order, each with its markers deleted: a line in which neither
  \<open><Header\<close> nor \<open><Footer\<close> occurs (so every line that mentions neither symbol) is unchanged,
  and a line made of one marker and white space becomes that white space. When moreover
  every line so obtained is settled, the patched text has no line matching the import pattern
  and no marker of either symbol. Every tidy text is of this kind.
\<close>

theorem layout_patch_on_closed_text:
  "split_on 10 (filter_imports t) =
     (let kept = filter (\<lambda>line. \<not> import_test line) (split_on 10 t)
      in if kept = [] then [[]] else kept) \<and>
   (closed t \<longrightarrow>
      split_on 10 (patch_layout t) = map strip_markers (split_on 10 (filter_imports t)) \<and>
      (list_all (\<lambda>l. settled (strip_markers l)) (split_on 10 (filter_imports t)) \<longrightarrow>
         list_all (\<lambda>l. \<not> import_test l) (split_on 10 (patch_layout t)) \<and>
         \<not> has_marker (u ''Header'') (patch_layout t) \<and>
         \<not> has_marker (u ''Footer'') (patch_layout t))) \<and>
   (\<not> occurs (60 # u ''Header'') l \<and> \<not> occurs (60 # u ''Footer'') l \<longrightarrow> strip_markers l = l) \<and>
   (\<not> mentions l \<longrightarrow> strip_markers l = l) \<and>
   ((name = u ''Header'' \<or> name = u ''Footer'') \<and>
    list_all is_space pre \<and> list_all is_space ws \<and> list_all is_space post \<longrightarrow>
      strip_markers (pre @ 60 # name @ ws @ u ''/>'' @ post) = pre @ post) \<and>
   (tidy t \<longrightarrow>
      closed t \<and>
      list_all (\<lambda>l. settled (strip_markers l)) (split_on 10 (filter_imports t)))"
proof (intro conjI impI)
  show "split_on 10 (filter_imports t) =
     (let kept = filter (\<lambda>line. \<not> import_test line) (split_on 10 t)
      in if kept = [] then [[]] else kept)"
    by (rule filter_imports_lines)
next
  assume "closed t"
  then show "split_on 10 (patch_layout t) = map strip_markers (split_on 10 (filter_imports t))"
    by (rule closed_patch)
next
  assume "closed t"
    and "list_all (\<lambda>l. settled (strip_markers l)) (split_on 10 (filter_imports t))"
  then show "list_all (\<lambda>l. \<not> import_test l) (split_on 10 (patch_layout t))"
    and "\<not> has_marker (u ''Header'') (patch_layout t)"
    and "\<not> has_marker (u ''Footer'') (patch_layout t)"
    by (rule settled_patch)+
next
  assume "\<not> occurs (60 # u ''Header'') l \<and> \<not> occurs (60 # u ''Footer'') l"
  then show "strip_markers l = l"
    by (simp add: strip_plain)
next
  assume "\<not> mentions l"
  then show "strip_markers l = l"
    using not_mentions_quiet [of l] by (simp add: strip_plain)
next
  assume "(name = u ''Header'' \<or> name = u ''Footer'') \<and>
    list_all is_space pre \<and> list_all is_space ws \<and> list_all is_space post"
  then show "strip_markers (pre @ 60 # name @ ws @ u ''/>'' @ post) = pre @ post"
    by (simp add: strip_marker_line)
next
  assume "tidy t"
  then show "closed t"
    and "list_all (\<lambda>l. settled (strip_markers l)) (split_on 10 (filter_imports t))"
    by (rule tidy_closed)+
qed

lemma match_marker_shorter:
  assumes "match_marker name s = Some r"
  shows "length r < length s"
proof -
  from assms have p: "prefix (60 # name) s"
    by (simp add: match_marker_def split: if_splits)
  from assms have "r = drop 2 (dropWhile is_space (drop (Suc (length name)) s))"
    by (simp add: match_marker_def Let_def split: if_splits)
  then have "length r \<le> length (dropWhile is_space (drop (Suc (length name)) s))"
    by simp
  also have "\<dots> \<le> length (drop (Suc (length name)) s)"
    by (rule length_dropWhile_le)
  also have "\<dots> < length s"
    using p by (auto simp: prefix_def)
  finally show ?thesis .
qed

lemma length_remove_all: "length (remove_all name s) \<le> length s"
proof (induction name s rule: remove_all.induct)
  case (1 name)
  then show ?case by simp
next
  case (2 name c cs)
  show ?case
  proof (cases "match_marker name (c # cs)")
    case None
    with 2 show ?thesis by simp
  next
    case (Some r)
    then have "length r < length (c # cs)"
      by (rule match_marker_shorter)
    with 2 Some show ?thesis by simp
  qed
qed

lemma marker_shortens: "has_marker name s \<Longrightarrow> length (remove_all name s) < length s"
proof (induction name s rule: remove_all.induct)
  case (1 name)
  then show ?case by simp
next
  case (2 name c cs)
  show ?case
  proof (cases "match_marker name (c # cs)")
    case None
    with 2 show ?thesis by simp
  next
    case (Some r)
    then have "length r < length (c # cs)"
      by (rule match_marker_shorter)
    moreover have "length (remove_all name r) \<le> length r"
      by (rule length_remove_all)
    ultimately show ?thesis
      using Some by simp
  qed
qed

lemma length_join: "Suc (length (join_on sep ls)) = (if ls = [] then 1 else sum_list (map (\<lambda>l. Suc (length l)) ls))"
  by (induction sep ls rule: join_on.induct) simp_all

lemma sum_filter_le:
  "sum_list (map (\<lambda>l. Suc (length l)) (filter P ls)) \<le> sum_list (map (\<lambda>l. Suc (length l)) ls)"
  by (induction ls) auto

lemma sum_filter_less:
  "l \<in> set ls \<Longrightarrow> \<not> P l \<Longrightarrow>
   sum_list (map (\<lambda>l. Suc (length l)) (filter P ls)) + Suc (length l)
     \<le> sum_list (map (\<lambda>l. Suc (length l)) ls)"
proof (induction ls)
  case Nil
  then show ?case by simp
next
  case (Cons a ls)
  show ?case
  proof (cases "l = a")
    case True
    with Cons.prems show ?thesis
      using sum_filter_le [of P ls] by simp
  next
    case False
    with Cons show ?thesis by auto
  qed
qed

lemma length_filter_imports: "length (filter_imports y) \<le> length y"
proof (cases "filter (\<lambda>line. \<not> import_test line) (split_on 10 y) = []")
  case True
  then show ?thesis
    by (simp add: filter_imports_def)
next
  case False
  let ?ls = "split_on 10 y"
  let ?kept = "filter (\<lambda>line. \<not> import_test line) ?ls"
  have "Suc (length (join_on 10 ?kept)) = sum_list (map (\<lambda>l. Suc (length l)) ?kept)"
    using False by (simp only: length_join if_False)
  also have "\<dots> \<le> sum_list (map (\<lambda>l. Suc (length l)) ?ls)"
    by (rule sum_filter_le)
  also have "\<dots> = Suc (length (join_on 10 ?ls))"
    using split_on_nonempty [of 10 y] by (simp only: length_join if_False)
  finally show ?thesis
    by (simp add: filter_imports_def join_split)
qed

lemma import_line_shortens:
  assumes "l \<in> set (split_on 10 y)" and "import_test l"
  shows "length (filter_imports y) < length y"
proof (cases "filter (\<lambda>line. \<not> import_test line) (split_on 10 y) = []")
  case True
  have "l \<noteq> []"
    using assms(2) by auto
  with assms(1) have "y \<noteq> []"
    by auto
  with True show ?thesis
    by (simp add: filter_imports_def)
next
  case False
  let ?ls = "split_on 10 y"
  let ?kept = "filter (\<lambda>line. \<not> import_test line) ?ls"
  have "Suc (length (join_on 10 ?kept)) = sum_list (map (\<lambda>l. Suc (length l)) ?kept)"
    using False by (simp only: length_join if_False)
  also have "\<dots> < sum_list (map (\<lambda>l. Suc (length l)) ?kept) + Suc (length l)"
    by simp
  also have "\<dots> \<le> sum_list (map (\<lambda>l. Suc (length l)) ?ls)"
    using assms by (intro sum_filter_less) simp_all
  also have "\<dots> = Suc (length (join_on 10 ?ls))"
    using split_on_nonempty [of 10 y] by (simp only: length_join if_False)
  finally show ?thesis
    by (simp add: filter_imports_def join_split)
qed

lemma fixed_clean:
  assumes "patch_layout y = y"
  shows "list_all (\<lambda>l. \<not> import_test l) (split_on 10 y)"
    and "\<not> has_marker (u ''Header'') y" and "\<not> has_marker (u ''Footer'') y"
proof -
  let ?z = "filter_imports y"
  let ?h = "remove_all (u ''Header'') ?z"
  have 1: "length (remove_all (u ''Footer'') ?h) \<le> length ?h"
    and 2: "length ?h \<le> length ?z" and 3: "length ?z \<le> length y"
    by (rule length_remove_all length_filter_imports)+
  have e: "length (remove_all (u ''Footer'') ?h) = length y"
    using assms by (simp add: patch_layout_def)
  show lines: "list_all (\<lambda>l. \<not> import_test l) (split_on 10 y)"
  proof (rule ccontr)
    assume "\<not> list_all (\<lambda>l. \<not> import_test l) (split_on 10 y)"
    then obtain l where "l \<in> set (split_on 10 y)" "import_test l"
      by (auto simp: list_all_iff)
    then have "length ?z < length y"
      by (rule import_line_shortens)
    with 1 2 e show False by simp
  qed
  then have "filter (\<lambda>line. \<not> import_test line) (split_on 10 y) = split_on 10 y"
    by (simp add: list_all_iff)
  then have z: "?z = y"
    by (simp add: filter_imports_def join_split)
  show h: "\<not> has_marker (u ''Header'') y"
  proof
    assume "has_marker (u ''Header'') y"
    then have "length ?h < length y"
      unfolding z by (rule marker_shortens)
    with 1 e show False by simp
  qed
  then have hy: "?h = y"
    unfolding z by (rule no_marker_unchanged)
  show "\<not> has_marker (u ''Footer'') y"
  proof
    assume "has_marker (u ''Footer'') y"
    then have "length (remove_all (u ''Footer'') y) < length y"
      by (rule marker_shortens)
    with e hy show False by simp
  qed
qed

text \<open>
  Claim C10 (amended). The import filter is idempotent on every text. The whole patch applied
  twice gives what it gives applied once exactly when its first result has no line matching
  the import pattern and no marker left; this is so on every tidy text.
\<close>

theorem layout_patch_idempotent_iff_clean:
  "filter_imports (filter_imports t) = filter_imports t \<and>
   (patch_layout (patch_layout t) = patch_layout t \<longleftrightarrow>
      list_all (\<lambda>l. \<not> import_test l) (split_on 10 (patch_layout t)) \<and>
      \<not> has_marker (u ''Header'') (patch_layout t) \<and>
      \<not> has_marker (u ''Footer'') (patch_layout t)) \<and>
   (tidy t \<longrightarrow> patch_layout (patch_layout t) = patch_layout t)"
proof (intro conjI impI)
  show "filter_imports (filter_imports t) = filter_imports t"
    by (rule filter_imports_idem)
next
  show "patch_layout (patch_layout t) = patch_layout t \<longleftrightarrow>
      list_all (\<lambda>l. \<not> import_test l) (split_on 10 (patch_layout t)) \<and>
      \<not> has_marker (u ''Header'') (patch_layout t) \<and>
      \<not> has_marker (u ''Footer'') (patch_layout t)"
    using fixed_clean [of "patch_layout t"] clean_fixed [of "patch_layout t"] by blast
next
  assume "tidy t"
  then show "patch_layout (patch_layout t) = patch_layout t"
    by (intro clean_fixed tidy_patch)
qed

lemmas text_eval = u_def patch_layout_def filter_imports_def import_at_def match_marker_def
  is_space_def is_line_terminator_def

text \<open>
  Deleting a marker joins the text on both sides of it. The joined text can be an import
  line of the two symbols or a marker, and a marker that spans a line break takes part of a
  line that mentions neither symbol.
\<close>

theorem layout_patch_counterexample:
  "import_test (u ''import Header from x'') \<and>
   patch_layout (u ''import Header from x'' @ [10] @ u ''import<Header/> Footer'') =
     u ''import Footer'' \<and>
   import_test (u ''import Footer'') \<and>
   patch_layout (u ''import Header from x'' @ [10] @ u ''<Hea<Footer/>der/>'') = u ''<Header/>'' \<and>
   has_marker (u ''Header'') (u ''<Header/>'') \<and>
   \<not> mentions (u ''/>tail'') \<and>
   patch_layout (u ''import Header from x'' @ [10] @ u ''<Header'' @ [10] @ u ''/>tail'') =
     u ''tail''"
  by (simp add: text_eval mentions_def)

text \<open>A marker put together by the first application is deleted by the second.\<close>

theorem layout_patch_idempotence_counterexample:
  "patch_layout (patch_layout (u ''<Hea<Footer/>der/>'')) \<noteq>
   patch_layout (u ''<Hea<Footer/>der/>'')"
  by (simp add: text_eval)

lemma demo_layout_tidy: "tidy demo_layout"
  by (simp add: tidy_def demo_layout_def mentions_def marker_line_def text_eval)

lemma mixed_layout_kept:
  "split_on 10 (filter_imports mixed_layout) =
     [u ''<div><Header/></div>'', u ''<Header /><Footer />'', u ''// Header stays'']"
  by (simp add: mixed_layout_def text_eval)

lemma mixed_layout_stripped:
  "strip_markers (u ''<div><Header/></div>'') = u ''<div></div>''"
  "strip_markers (u ''<Header /><Footer />'') = []"
  "strip_markers (u ''// Header stays'') = u ''// Header stays''"
  by (simp_all add: strip_markers_def text_eval)

lemma mixed_layout_closed: "closed mixed_layout"
  unfolding closed_def mixed_layout_kept by (simp add: text_eval)

lemma mixed_layout_settled:
  "list_all (\<lambda>l. settled (strip_markers l)) (split_on 10 (filter_imports mixed_layout))"
  unfolding mixed_layout_kept by (simp add: mixed_layout_stripped) (simp add: settled_def text_eval)

lemma mixed_layout_not_tidy: "\<not> tidy mixed_layout"
  by (simp add: tidy_def mixed_layout_def mentions_def marker_line_def text_eval)

theorem layout_patch_on_closed_text_witness:
  "\<not> tidy mixed_layout \<and> closed mixed_layout \<and>
   split_on 10 (patch_layout mixed_layout) = [u ''<div></div>'', [], u ''// Header stays''] \<and>
   list_all (\<lambda>l. \<not> import_test l) (split_on 10 (patch_layout mixed_layout)) \<and>
   \<not> has_marker (u ''Header'') (patch_layout mixed_layout) \<and>
   \<not> has_marker (u ''Footer'') (patch_layout mixed_layout) \<and>
   tidy demo_layout \<and> closed demo_layout \<and>
   list_all (\<lambda>l. \<not> import_test l) (split_on 10 (patch_layout demo_layout)) \<and>
   \<not> has_marker (u ''Header'') (patch_layout demo_layout) \<and>
   \<not> has_marker (u ''Footer'') (patch_layout demo_layout)"
proof -
  have "split_on 10 (patch_layout mixed_layout) =
          map strip_markers (split_on 10 (filter_imports mixed_layout))"
    using layout_patch_on_closed_text [of mixed_layout] mixed_layout_closed by blast
  then have 1: "split_on 10 (patch_layout mixed_layout) =
                  [u ''<div></div>'', [], u ''// Header stays'']"
    by (simp add: mixed_layout_kept mixed_layout_stripped)
  have 2: "list_all (\<lambda>l. \<not> import_test l) (split_on 10 (patch_layout mixed_layout)) \<and>
   \<not> has_marker (u ''Header'') (patch_layout mixed_layout) \<and>
   \<not> has_marker (u ''Footer'') (patch_layout mixed_layout)"
    using layout_patch_on_closed_text [of mixed_layout] mixed_layout_closed mixed_layout_settled
    by blast
  have 3: "closed demo_layout \<and>
   list_all (\<lambda>l. \<not> import_test l) (split_on 10 (patch_layout demo_layout)) \<and>
   \<not> has_marker (u ''Header'') (patch_layout demo_layout) \<and>
   \<not> has_marker (u ''Footer'') (patch_layout demo_layout)"
    using layout_patch_on_closed_text [of demo_layout] demo_layout_tidy by blast
  from 1 2 3 mixed_layout_not_tidy mixed_layout_closed demo_layout_tidy show ?thesis
    by blast
qed

theorem layout_patch_idempotent_iff_clean_witness:
  "tidy demo_layout \<and> patch_layout (patch_layout demo_layout) = patch_layout demo_layout"
  using layout_patch_idempotent_iff_clean [of demo_layout] demo_layout_tidy by blast

end
